theory Spec2Isabelle
  imports Complex_Main "HOL-Library.Monad_Syntax" "HOL-Library.Multiset"
begin

section \<open>Arrays, bounds and loops\<close>

text \<open>
  The C++ sources compute sizes and indices in the type \<open>int\<close>, which has 32 bits. The
  model computes in the integers and writes the wrap-around out where the sources
  multiply: \<open>int32 x\<close> is the value that 32-bit two's complement arithmetic gives for
  the exact result \<open>x\<close>. It is applied to the sizes \<open>N * maxNz\<close> and \<open>maxNz * length\<close>
  and to the cell index \<open>k\<close> of the fill loops of the ELL constructors, and to
  \<open>2 * nz - N\<close> of the loader. The sums and differences of indices and counts
  (\<open>i + 1\<close>, \<open>i - 1\<close>, \<open>ptr[i - 1] + nzPerRow[i - 1]\<close>, \<open>offset + length\<close>) are left
  as they are: in the conversion of a matrix that satisfies the class invariant they
  lie between \<open>-1\<close> and the larger of \<open>nz\<close> and \<open>N + 1\<close>, which leaves the range of
  \<open>int\<close> only for the dimension \<open>N = 2^31 - 1\<close>.
\<close>

definition int32 :: "int \<Rightarrow> int" where
  "int32 x = (x + 2 ^ 31) mod 2 ^ 32 - 2 ^ 31"

text \<open>
  A fully initialised array is a list. An array obtained from \<open>new T[n]\<close> whose cells are
  written one by one is a list of optional cells: \<open>None\<close> is a cell that was never
  written. \<open>new T[n]\<close> with a negative \<open>n\<close> throws, which is the result \<open>None\<close>. The
  accesses of the conversions are bounds-checked in the model: an access outside the
  array and the read of a cell that was never written (undefined behaviour in C++) are
  the result \<open>None\<close> as well; the theorems on the conversions state the conditions on
  the input under which no such access occurs. The values of the matrix (\<open>floatType\<close>)
  are only copied by the code modelled here; their type is the parameter \<open>'v\<close>.
\<close>

type_synonym 'a array = "'a option list"

definition new_array :: "int \<Rightarrow> 'a array option" where
  "new_array n = (if 0 \<le> n then Some (replicate (nat n) None) else None)"

definition aread :: "'a array \<Rightarrow> int \<Rightarrow> 'a option" where
  "aread a i = (if 0 \<le> i \<and> i < int (length a) then a ! nat i else None)"

definition awrite :: "'a array \<Rightarrow> int \<Rightarrow> 'a \<Rightarrow> 'a array option" where
  "awrite a i v = (if 0 \<le> i \<and> i < int (length a) then Some (a[nat i := Some v]) else None)"

definition lread :: "'a list \<Rightarrow> int \<Rightarrow> 'a option" where
  "lread xs i = (if 0 \<le> i \<and> i < int (length xs) then Some (xs ! nat i) else None)"

definition lwrite :: "'a list \<Rightarrow> int \<Rightarrow> 'a \<Rightarrow> 'a list option" where
  "lwrite xs i v = (if 0 \<le> i \<and> i < int (length xs) then Some (xs[nat i := v]) else None)"

text \<open>
  \<open>for (int i = a; i < n; i++) body\<close> over a state \<open>s\<close>; the body may fail.
\<close>

function for_loop :: "int \<Rightarrow> int \<Rightarrow> (int \<Rightarrow> 's \<Rightarrow> 's option) \<Rightarrow> 's \<Rightarrow> 's option" where
  "for_loop i n body s =
     (if i < n then
        (case body i s of None \<Rightarrow> None | Some s' \<Rightarrow> for_loop (i + 1) n body s')
      else Some s)"
  by pat_completeness auto
termination
  by (relation "measure (\<lambda>(i, n, body, s). nat (n - i))") auto

declare for_loop.simps [simp del]

section \<open>The triplet matrix and its loader (Matrix.cpp, MatrixCOO)\<close>

text \<open>
  The constructor \<open>MatrixCOO::MatrixCOO(const char *file)\<close> is \<open>MatrixCOO_load\<close>.
\<close>

record Matrix =
  N :: int
  nz :: int

record 'v MatrixCOO = Matrix +
  I :: "int list"
  J :: "int list"
  V :: "'v list"
  nzPerRow :: "int list"

text \<open>
  The loader reads the file through \<open>fopen\<close>, the Matrix Market routines of \<open>mmio.h\<close>
  and \<open>fscanf\<close>. None of them is part of the repository's sources, so the model takes
  what they return: whether the file could be opened, the type code of the banner (if
  \<open>mm_read_banner\<close> succeeds) with the answers of \<open>mm_is_sparse\<close>, \<open>mm_is_real\<close> and
  \<open>mm_is_symmetric\<close>, the size line \<open>(M, N, nz)\<close> (if \<open>mm_read_mtx_crd_size\<close> succeeds),
  and the entries \<open>(row, column, value)\<close> that the successive \<open>fscanf\<close> calls read.
\<close>

record MM_typecode =
  mm_is_sparse :: bool
  mm_is_real :: bool
  mm_is_symmetric :: bool

record 'v MatrixFile =
  fopen_ok :: bool
  mm_read_banner :: "MM_typecode option"
  mm_read_mtx_crd_size :: "(int \<times> int \<times> int) option"
  entries :: "(int \<times> int \<times> 'v) list"

text \<open>
  The five \<open>std::exit(1)\<close> calls of the constructor, and the ways the allocation and the
  read loop can go wrong without a message: a negative array length, an \<open>fscanf\<close> that
  finds no further entry (the cells it should have filled stay uninitialised), and a
  row index outside \<open>nzPerRow\<close>.
\<close>

datatype fatal = CantOpenFile | BadBanner | UnsupportedType | BadSize | NotQuadratic

datatype fault = BadArrayLength | MissingEntry | OutOfBounds

datatype load_error = Exit fatal | Fault fault

definition increment :: "int list \<Rightarrow> int \<Rightarrow> int list option" where
  "increment xs i = (case lread xs i of None \<Rightarrow> None | Some x \<Rightarrow> lwrite xs i (x + 1))"

text \<open>
  The read loop. The arrays \<open>I\<close>, \<open>J\<close> and \<open>V\<close> are filled from cell 0 upwards, one
  cell for every increment of \<open>i\<close>; during the loop the model keeps the cells written so
  far, in the fields \<open>I\<close>, \<open>J\<close> and \<open>V\<close>, so that writing cell \<open>i\<close> appends. The loop
  tests \<open>i < nz\<close> only at its head: the mirrored entry is written after the \<open>i++\<close>
  inside the body with no test, and when the entry read into the last cell \<open>nz - 1\<close> is
  off the diagonal of a symmetric matrix, its mirror goes to cell \<open>nz\<close>, past the end of
  the three arrays, where \<open>nzPerRow[I[i]]++\<close> reads it back. The model keeps this cell
  like the others, and the loop ends as the source's does.
\<close>

fun read_loop :: "bool \<Rightarrow> (int \<times> int \<times> 'v) list \<Rightarrow> int \<Rightarrow> 'v MatrixCOO \<Rightarrow> load_error + 'v MatrixCOO" where
  "read_loop symmetric [] i coo = (if i < nz coo then Inl (Fault MissingEntry) else Inr coo)"
| "read_loop symmetric ((r, c, v) # es) i coo =
     (if i < nz coo then
        (case increment (nzPerRow coo) (r - 1) of
           None \<Rightarrow> Inl (Fault OutOfBounds)
         | Some npr1 \<Rightarrow>
             (if symmetric \<and> r - 1 \<noteq> c - 1 then
                (case increment npr1 (c - 1) of
                   None \<Rightarrow> Inl (Fault OutOfBounds)
                 | Some npr2 \<Rightarrow>
                     read_loop symmetric es (i + 1 + 1)
                       (coo\<lparr>I := I coo @ [r - 1, c - 1], J := J coo @ [c - 1, r - 1],
                            V := V coo @ [v, v], nzPerRow := npr2\<rparr>))
              else
                read_loop symmetric es (i + 1)
                  (coo\<lparr>I := I coo @ [r - 1], J := J coo @ [c - 1], V := V coo @ [v],
                       nzPerRow := npr1\<rparr>)))
      else Inr coo)"

text \<open>
  The constructor. The arrays \<open>I\<close>, \<open>J\<close> and \<open>V\<close> of the constructed object are the
  \<open>nz\<close> cells that were allocated: a cell that the read loop has written past their end
  is not one of them.
\<close>

definition MatrixCOO_load :: "'v MatrixFile \<Rightarrow> load_error + 'v MatrixCOO" where
  "MatrixCOO_load file =
     (if \<not> fopen_ok file then Inl (Exit CantOpenFile)
      else (case mm_read_banner file of
        None \<Rightarrow> Inl (Exit BadBanner)
      | Some matcode \<Rightarrow>
          (if \<not> mm_is_sparse matcode \<or> \<not> mm_is_real matcode then Inl (Exit UnsupportedType)
           else (case mm_read_mtx_crd_size file of
             None \<Rightarrow> Inl (Exit BadSize)
           | Some (M, n, nz0) \<Rightarrow>
               (if n \<noteq> M then Inl (Exit NotQuadratic)
                else
                  (let symmetric = mm_is_symmetric matcode;
                       nz1 = (if symmetric then int32 (2 * nz0 - n) else nz0)
                   in (if nz1 < 0 \<or> n < 0 then Inl (Fault BadArrayLength)
                       else
                         (case read_loop symmetric (entries file) 0
                                 \<lparr>N = n, nz = nz1, I = [], J = [], V = [],
                                  nzPerRow = replicate (nat n) 0\<rparr> of
                            Inl e \<Rightarrow> Inl e
                          | Inr coo \<Rightarrow>
                              Inr (coo\<lparr>I := take (nat nz1) (I coo), J := take (nat nz1) (J coo),
                                       V := take (nat nz1) (V coo)\<rparr>)))))))))"

definition getMaxNz :: "'v MatrixCOO \<Rightarrow> int \<Rightarrow> int \<Rightarrow> int option" where
  "getMaxNz coo from to =
     for_loop from to
       (\<lambda>i maxNz. do {
          x \<leftarrow> lread (nzPerRow coo) i;
          Some (if x > maxNz then x else maxNz)
        }) 0"

section \<open>Work distribution (WorkDistribution.h)\<close>

text \<open>
  Only the three members that Matrix.cpp reads are modelled. \<open>findChunk\<close> is declared in
  WorkDistribution.h, which is not among the sources; the split constructors take it as
  a parameter.
\<close>

record WorkDistribution =
  numberOfChunks :: int
  offsets :: "int list"
  lengths :: "int list"

section \<open>Compressed row storage (Matrix.cpp, MatrixDataCRS)\<close>

text \<open>
  The member \<open>value\<close> of \<open>MatrixDataCRS\<close> is the field \<open>val\<close>. \<open>DataMatrix<Data>\<close>
  derives from \<open>Matrix\<close> and from \<open>Data\<close>; in the model the data are the field
  \<open>matrixData\<close>. The constructors \<open>DataMatrix<MatrixDataCRS>::DataMatrix\<close> and
  \<open>SplitMatrix<MatrixDataCRS>::SplitMatrix\<close> are \<open>DataMatrixCRS\<close> and
  \<open>SplitMatrixCRS\<close>, and likewise for ELL; the body of each loop is a function of
  its own, named after the loop.
\<close>

record 'v MatrixDataCRS =
  ptr :: "int array"
  index :: "int array"
  val :: "'v array"

record 'd DataMatrix = Matrix +
  matrixData :: 'd

record 'd SplitMatrix = Matrix +
  data :: "'d list"




text \<open>
  Modelled from the spec: \<open>allocateData\<close> is declared in Matrix.h, which is not among
  the sources. By the spec a split matrix is a sequence of sub-matrices, one per chunk;
  each is default-constructed (the argument \<open>d\<close>).
\<close>

definition allocateData :: "'d \<Rightarrow> int \<Rightarrow> 'd list option" where
  "allocateData d n = (if 0 \<le> n then Some (replicate (nat n) d) else None)"









section \<open>ELLPACK storage (Matrix.cpp, MatrixDataELL)\<close>

record 'v MatrixDataELL =
  elements :: int
  lengthELL :: "int array"
  indexELL :: "int array"
  dataELL :: "'v array"

text \<open>
  Modelled from the spec: \<open>allocateLength\<close> is declared in Matrix.h, which is not among
  the sources. By the spec the per-row count array has one cell per row.
\<close>

definition allocateLength :: "int \<Rightarrow> int array option" where
  "allocateLength rows = new_array rows"

text \<open>
  Modelled from the spec: \<open>allocateIndexAndData\<close> is declared in Matrix.h, which is not
  among the sources. By the spec the column-index and value arrays have \<open>elements\<close>
  cells (rows times pad width); the member \<open>elements\<close> is set before the call.
\<close>

definition allocateIndexAndData :: "int \<Rightarrow> (int array \<times> 'v array) option" where
  "allocateIndexAndData elems = do {
     idx \<leftarrow> new_array elems;
     dat \<leftarrow> new_array elems;
     Some (idx, dat)
   }"

text \<open>
  Modelled from the spec: the call \<open>getMaxNz()\<close> without arguments is declared in
  Matrix.h, which is not among the sources. By the spec the pad width of the unchunked
  matrix is the maximum per-row count over all rows.
\<close>

definition getMaxNz_all :: "'v MatrixCOO \<Rightarrow> int option" where
  "getMaxNz_all coo = getMaxNz coo 0 (N coo)"

text \<open>
  Modelled from the spec: the default constructor of \<open>MatrixDataELL\<close> is declared in
  Matrix.h, which is not among the sources. A sub-matrix has no storage before the
  constructor of the split matrix allocates it.
\<close>

definition emptyELL :: "'v MatrixDataELL" where
  "emptyELL = \<lparr>elements = 0, lengthELL = [], indexELL = [], dataELL = []\<rparr>"

text \<open>
  \<open>std::memcpy(dst, src + from, sizeof(int) * n)\<close> and
  \<open>std::memset(dst, 0, sizeof(int) * n)\<close> on \<open>int\<close> arrays.
\<close>

definition memcpy :: "'a array \<Rightarrow> 'a list \<Rightarrow> int \<Rightarrow> int \<Rightarrow> 'a array option" where
  "memcpy dst src from n =
     (if 0 \<le> from \<and> 0 \<le> n \<and> from + n \<le> int (length src) \<and> n \<le> int (length dst)
      then Some (map Some (take (nat n) (drop (nat from) src)) @ drop (nat n) dst)
      else None)"

definition memset0 :: "int array \<Rightarrow> int \<Rightarrow> int array option" where
  "memset0 dst n =
     (if 0 \<le> n \<and> n \<le> int (length dst)
      then Some (replicate (nat n) (Some 0) @ drop (nat n) dst)
      else None)"

fun ell_fill_body :: "'v MatrixCOO \<Rightarrow> int \<Rightarrow> int array \<times> int array \<times> 'v array
     \<Rightarrow> (int array \<times> int array \<times> 'v array) option" where
  "ell_fill_body coo i (offs, idx, dat) = do {
     row \<leftarrow> lread (I coo) i;
     cur \<leftarrow> aread offs row;
     let k = int32 (cur * N coo + row);
     j \<leftarrow> lread (J coo) i;
     idx' \<leftarrow> awrite idx k j;
     v \<leftarrow> lread (V coo) i;
     dat' \<leftarrow> awrite dat k v;
     offs' \<leftarrow> awrite offs row (cur + 1);
     Some (offs', idx', dat')
   }"

definition DataMatrixELL :: "'v MatrixCOO \<Rightarrow> 'v MatrixDataELL DataMatrix option" where
  "DataMatrixELL coo = do {
     maxNz \<leftarrow> getMaxNz_all coo;
     let elems = int32 (N coo * maxNz);
     len0 \<leftarrow> allocateLength (N coo);
     len \<leftarrow> memcpy len0 (nzPerRow coo) 0 (N coo);
     offs0 \<leftarrow> new_array (N coo);
     offs1 \<leftarrow> memset0 offs0 (N coo);
     (idx0, dat0) \<leftarrow> allocateIndexAndData elems;
     (offs2, idx, dat) \<leftarrow> for_loop 0 (nz coo) (ell_fill_body coo) (offs1, idx0, dat0);
     Some \<lparr>N = N coo, nz = nz coo,
           matrixData = \<lparr>elements = elems, lengthELL = len, indexELL = idx, dataELL = dat\<rparr>\<rparr>
   }"

definition split_ell_alloc_chunk :: "'v MatrixCOO \<Rightarrow> WorkDistribution \<Rightarrow> int \<Rightarrow> 'v MatrixDataELL list
     \<Rightarrow> 'v MatrixDataELL list option" where
  "split_ell_alloc_chunk coo wd c dat = do {
     offset \<leftarrow> lread (offsets wd) c;
     length \<leftarrow> lread (lengths wd) c;
     maxNz \<leftarrow> getMaxNz coo offset (offset + length);
     d \<leftarrow> lread dat c;
     len0 \<leftarrow> allocateLength length;
     len \<leftarrow> memcpy len0 (nzPerRow coo) offset length;
     let elems = int32 (maxNz * length);
     (idx, vals) \<leftarrow> allocateIndexAndData elems;
     lwrite dat c (d\<lparr>elements := elems, lengthELL := len, indexELL := idx, dataELL := vals\<rparr>)
   }"

fun split_ell_fill_body :: "(int \<Rightarrow> int) \<Rightarrow> 'v MatrixCOO \<Rightarrow> WorkDistribution \<Rightarrow> int
     \<Rightarrow> int array \<times> 'v MatrixDataELL list \<Rightarrow> (int array \<times> 'v MatrixDataELL list) option" where
  "split_ell_fill_body findChunk coo wd i (offs, dat) = do {
     row \<leftarrow> lread (I coo) i;
     let chunk = findChunk row;
     cur \<leftarrow> aread offs row;
     len \<leftarrow> lread (lengths wd) chunk;
     off \<leftarrow> lread (offsets wd) chunk;
     let k = int32 (cur * len + row - off);
     d \<leftarrow> lread dat chunk;
     j \<leftarrow> lread (J coo) i;
     idx' \<leftarrow> awrite (indexELL d) k j;
     v \<leftarrow> lread (V coo) i;
     vals' \<leftarrow> awrite (dataELL d) k v;
     dat' \<leftarrow> lwrite dat chunk (d\<lparr>indexELL := idx', dataELL := vals'\<rparr>);
     offs' \<leftarrow> awrite offs row (cur + 1);
     Some (offs', dat')
   }"

definition SplitMatrixELL :: "(int \<Rightarrow> int) \<Rightarrow> 'v MatrixCOO \<Rightarrow> WorkDistribution
     \<Rightarrow> 'v MatrixDataELL SplitMatrix option" where
  "SplitMatrixELL findChunk coo wd = do {
     dat0 \<leftarrow> allocateData emptyELL (numberOfChunks wd);
     dat1 \<leftarrow> for_loop 0 (numberOfChunks wd) (split_ell_alloc_chunk coo wd) dat0;
     offs0 \<leftarrow> new_array (N coo);
     offs1 \<leftarrow> memset0 offs0 (N coo);
     (offs2, dat2) \<leftarrow> for_loop 0 (nz coo) (split_ell_fill_body findChunk coo wd) (offs1, dat1);
     Some \<lparr>N = N coo, nz = nz coo, data = dat2\<rparr>
   }"

section \<open>The solver engine's kernel wrappers (CG.h)\<close>

text \<open>
  The private members of \<open>CG\<close> (the iteration state and the timing totals) are fields
  of the record \<open>CG\<close>; what a derived class can reach (the protected members, and
  whatever the derived class adds, kept abstract as \<open>members\<close>) is the record
  \<open>Engine\<close>. The virtual kernels are member functions of the derived class, so they
  act on the \<open>Engine\<close> part only; a kernel may stop the process, as the default
  \<open>applyPreconditionerKernel\<close> does with its assertion. The pure virtual kernels are
  parameters of the model (the record \<open>Kernels\<close>). The two readings of the steady
  clock, before and after the kernel, are the parameters \<open>start\<close> and \<open>stop\<close>.
\<close>

datatype Vector = VectorK | VectorX | VectorP | VectorQ | VectorR | VectorZ

datatype MatrixFormat = MatrixFormatCOO | MatrixFormatCRS | MatrixFormatELL

datatype Preconditioner = PreconditionerNone | PreconditionerJacobi

record Timing =
  t_io :: real
  t_converting :: real
  t_solve :: real
  t_matvec :: real
  t_axpy :: real
  t_xpay :: real
  t_vectorDot :: real
  t_preconditioner :: real

record 'b Engine =
  matrixFormat :: MatrixFormat
  preconditioner :: Preconditioner
  members :: 'b

record ('f, 'b) CG =
  iteration :: int
  maxIterations :: int
  residual :: 'f
  tolerance :: 'f
  timing :: Timing
  engine :: "'b Engine"

datatype abort = AssertionFailed

record ('f, 'b) Kernels =
  supportsPreconditioner :: "Preconditioner \<Rightarrow> bool"
  matvecKernel :: "Vector \<Rightarrow> Vector \<Rightarrow> 'b Engine \<Rightarrow> abort + 'b Engine"
  axpyKernel :: "'f \<Rightarrow> Vector \<Rightarrow> Vector \<Rightarrow> 'b Engine \<Rightarrow> abort + 'b Engine"
  xpayKernel :: "Vector \<Rightarrow> 'f \<Rightarrow> Vector \<Rightarrow> 'b Engine \<Rightarrow> abort + 'b Engine"
  vectorDotKernel :: "Vector \<Rightarrow> Vector \<Rightarrow> 'b Engine \<Rightarrow> abort + 'f \<times> 'b Engine"
  applyPreconditionerKernel :: "Vector \<Rightarrow> Vector \<Rightarrow> 'b Engine \<Rightarrow> abort + 'b Engine"

text \<open>
  The bodies that \<open>CG\<close> itself gives to \<open>supportsPreconditioner\<close> and
  \<open>applyPreconditionerKernel\<close>. The latter is \<open>assert(0 && "Preconditioner not
  implemented!")\<close>; the assertion is taken as enabled (\<open>NDEBUG\<close> not defined).
\<close>

definition supportsPreconditioner_default :: "Preconditioner \<Rightarrow> bool" where
  "supportsPreconditioner_default p = False"

definition applyPreconditionerKernel_default :: "Vector \<Rightarrow> Vector \<Rightarrow> 'b Engine \<Rightarrow> abort + 'b Engine" where
  "applyPreconditionerKernel_default x y e = Inl AssertionFailed"

definition matvec :: "('f, 'b) Kernels \<Rightarrow> real \<Rightarrow> real \<Rightarrow> Vector \<Rightarrow> Vector \<Rightarrow> ('f, 'b) CG \<Rightarrow> abort + ('f, 'b) CG" where
  "matvec K start stop inp out cg =
     (case matvecKernel K inp out (engine cg) of
        Inl a \<Rightarrow> Inl a
      | Inr e \<Rightarrow> Inr (cg\<lparr>engine := e,
                        timing := (timing cg)\<lparr>t_matvec := t_matvec (timing cg) + (stop - start)\<rparr>\<rparr>))"

definition axpy :: "('f, 'b) Kernels \<Rightarrow> real \<Rightarrow> real \<Rightarrow> 'f \<Rightarrow> Vector \<Rightarrow> Vector \<Rightarrow> ('f, 'b) CG \<Rightarrow> abort + ('f, 'b) CG" where
  "axpy K start stop a x y cg =
     (case axpyKernel K a x y (engine cg) of
        Inl b \<Rightarrow> Inl b
      | Inr e \<Rightarrow> Inr (cg\<lparr>engine := e,
                        timing := (timing cg)\<lparr>t_axpy := t_axpy (timing cg) + (stop - start)\<rparr>\<rparr>))"

definition xpay :: "('f, 'b) Kernels \<Rightarrow> real \<Rightarrow> real \<Rightarrow> Vector \<Rightarrow> 'f \<Rightarrow> Vector \<Rightarrow> ('f, 'b) CG \<Rightarrow> abort + ('f, 'b) CG" where
  "xpay K start stop x a y cg =
     (case xpayKernel K x a y (engine cg) of
        Inl b \<Rightarrow> Inl b
      | Inr e \<Rightarrow> Inr (cg\<lparr>engine := e,
                        timing := (timing cg)\<lparr>t_xpay := t_xpay (timing cg) + (stop - start)\<rparr>\<rparr>))"

definition vectorDot :: "('f, 'b) Kernels \<Rightarrow> real \<Rightarrow> real \<Rightarrow> Vector \<Rightarrow> Vector \<Rightarrow> ('f, 'b) CG \<Rightarrow> abort + 'f \<times> ('f, 'b) CG" where
  "vectorDot K start stop a b cg =
     (case vectorDotKernel K a b (engine cg) of
        Inl c \<Rightarrow> Inl c
      | Inr (res, e) \<Rightarrow> Inr (res, cg\<lparr>engine := e,
                        timing := (timing cg)\<lparr>t_vectorDot := t_vectorDot (timing cg) + (stop - start)\<rparr>\<rparr>))"

definition applyPreconditioner :: "('f, 'b) Kernels \<Rightarrow> real \<Rightarrow> real \<Rightarrow> Vector \<Rightarrow> Vector \<Rightarrow> ('f, 'b) CG \<Rightarrow> abort + ('f, 'b) CG" where
  "applyPreconditioner K start stop x y cg =
     (case applyPreconditionerKernel K x y (engine cg) of
        Inl b \<Rightarrow> Inl b
      | Inr e \<Rightarrow> Inr (cg\<lparr>engine := e,
                        timing := (timing cg)\<lparr>t_preconditioner := t_preconditioner (timing cg) + (stop - start)\<rparr>\<rparr>))"

section \<open>Notions of the specification\<close>

subsection \<open>Triplet matrices\<close>

text \<open>
  The triplets of a matrix in input order, the (column, value) pairs it holds for a row
  in input order, and the number of entries of a row.
\<close>

definition triplets :: "'v MatrixCOO \<Rightarrow> (int \<times> int \<times> 'v) list" where
  "triplets coo = zip (I coo) (zip (J coo) (V coo))"

definition row_of :: "(int \<times> int \<times> 'v) list \<Rightarrow> int \<Rightarrow> (int \<times> 'v) list" where
  "row_of ts r = map snd (filter (\<lambda>t. fst t = r) ts)"

definition row_count :: "int list \<Rightarrow> int \<Rightarrow> int" where
  "row_count rows r = int (length (filter (\<lambda>x. x = r) rows))"

text \<open>
  The class invariant of \<open>MatrixCOO\<close>: the three arrays have \<open>nz\<close> cells, every row
  index lies in \<open>[0, N)\<close>, and \<open>nzPerRow\<close> counts the entries of each row. A matrix
  that the loader returns satisfies it when its counts sum to \<open>nz\<close>, that is, unless
  the read loop has written past the end of the arrays (lemma \<open>load_correct\<close>).
\<close>

definition wf_coo :: "'v MatrixCOO \<Rightarrow> bool" where
  "wf_coo coo \<longleftrightarrow>
     0 \<le> N coo \<and> 0 \<le> nz coo \<and>
     length (I coo) = nat (nz coo) \<and> length (J coo) = nat (nz coo) \<and>
     length (V coo) = nat (nz coo) \<and>
     list_all (\<lambda>r. 0 \<le> r \<and> r < N coo) (I coo) \<and>
     nzPerRow coo = map (\<lambda>r. row_count (I coo) (int r)) [0..<nat (N coo)]"

text \<open>
  What the loader stores for one entry \<open>(row, column, value)\<close> of the file: the entry
  with 0-based indices and, for a symmetric matrix and an entry off the diagonal,
  immediately after it the mirrored entry.
\<close>

definition stored :: "bool \<Rightarrow> int \<times> int \<times> 'v \<Rightarrow> (int \<times> int \<times> 'v) list" where
  "stored symmetric e =
     (case e of (r, c, v) \<Rightarrow>
        (r - 1, c - 1, v) # (if symmetric \<and> r - 1 \<noteq> c - 1 then [(c - 1, r - 1, v)] else []))"

definition declared_symmetric :: "'v MatrixFile \<Rightarrow> bool" where
  "declared_symmetric file =
     (case mm_read_banner file of None \<Rightarrow> False | Some matcode \<Rightarrow> mm_is_symmetric matcode)"

text \<open>
  The fatal load errors as the specification lists them: the file is unreadable, the
  banner is malformed, the type is not real sparse, or the dimensions are not square.
\<close>

definition spec_fatal_conditions :: "'v MatrixFile \<Rightarrow> bool" where
  "spec_fatal_conditions file \<longleftrightarrow>
     \<not> fopen_ok file \<or>
     (case mm_read_banner file of
        None \<Rightarrow> True
      | Some matcode \<Rightarrow> \<not> (mm_is_sparse matcode \<and> mm_is_real matcode)) \<or>
     (case mm_read_mtx_crd_size file of
        None \<Rightarrow> False
      | Some (M, n, nz0) \<Rightarrow> n \<noteq> M)"

text \<open>
  The state of the read loop when \<open>i\<close> cells have been written.
\<close>

definition loading :: "'v MatrixCOO \<Rightarrow> int \<Rightarrow> bool" where
  "loading coo i \<longleftrightarrow>
     0 \<le> N coo \<and> i = int (length (I coo)) \<and>
     length (J coo) = length (I coo) \<and> length (V coo) = length (I coo) \<and>
     list_all (\<lambda>r. 0 \<le> r \<and> r < N coo) (I coo) \<and>
     nzPerRow coo = map (\<lambda>r. row_count (I coo) (int r)) [0..<nat (N coo)]"

subsection \<open>The solver's use of the preconditioner\<close>

text \<open>
  Modelled from the spec: the validation of the configuration (\<open>parseEnvironment\<close>) is
  defined in CG.cpp, which is not among the sources. By the spec, "an engine declares
  which storage formats and which preconditioner kinds it supports; selecting an
  unsupported combination is a configuration error raised before any numeric work
  begins": after the validation a preconditioner other than "none" is selected only
  when the engine supports it.
\<close>

definition preconditioner_validated :: "('f, 'b) Kernels \<Rightarrow> ('f, 'b) CG \<Rightarrow> bool" where
  "preconditioner_validated K cg \<longleftrightarrow>
     (preconditioner (engine cg) \<noteq> PreconditionerNone \<longrightarrow>
        supportsPreconditioner K (preconditioner (engine cg)))"

text \<open>
  Modelled from the spec: the solver loop (\<open>solve\<close>) is defined in CG.cpp, which is not
  among the sources. By the spec the solver computes \<open>z := B r\<close>, at the start and in
  every iteration, only "if a preconditioner is active"; this is that guarded step.
\<close>

definition solve_precondition :: "('f, 'b) Kernels \<Rightarrow> real \<Rightarrow> real \<Rightarrow> ('f, 'b) CG \<Rightarrow> abort + ('f, 'b) CG" where
  "solve_precondition K start stop cg =
     (if preconditioner (engine cg) \<noteq> PreconditionerNone
      then applyPreconditioner K start stop VectorR VectorZ cg
      else Inr cg)"

subsection \<open>The conversions\<close>

text \<open>
  The entries of the rows \<open>lo, ..., hi - 1\<close>, row after row, each row in input order.
\<close>

definition rows_from :: "(int \<times> int \<times> 'v) list \<Rightarrow> nat \<Rightarrow> nat \<Rightarrow> (int \<times> 'v) list" where
  "rows_from ts lo hi = concat (map (\<lambda>q. row_of ts (int q)) [lo..<hi])"



text \<open>
  The CRS data of the rows \<open>lo, ..., lo + len - 1\<close> in closed form: the prefix sums of the
  row lengths, and the columns and values of the rows, row after row.
\<close>

definition crs_of :: "(int \<times> int \<times> 'v) list \<Rightarrow> nat \<Rightarrow> nat \<Rightarrow> 'v MatrixDataCRS" where
  "crs_of ts lo len =
     \<lparr>ptr = map (\<lambda>r. Some (int (length (rows_from ts lo (lo + r))))) [0..<Suc len],
      index = map (\<lambda>x. Some (fst x)) (rows_from ts lo (lo + len)),
      val = map (\<lambda>x. Some (snd x)) (rows_from ts lo (lo + len))\<rparr>"



text \<open>
  The largest per-row count among the rows \<open>lo, ..., hi - 1\<close>, and 0 when there is none:
  what \<open>getMaxNz(lo, hi)\<close> computes.
\<close>

definition max_nz :: "int list \<Rightarrow> nat \<Rightarrow> nat \<Rightarrow> int" where
  "max_nz npr lo hi = Max (insert 0 (set (take (hi - lo) (drop lo npr))))"

text \<open>
  The ELL data of the rows \<open>lo, ..., lo + len - 1\<close> in closed form: cell \<open>p\<close> belongs to slot
  \<open>p div len\<close> of row \<open>lo + p mod len\<close>; it holds the entry of that slot, or nothing when
  the row has fewer entries.
\<close>

definition ell_cell :: "(int \<times> int \<times> 'v) list \<Rightarrow> nat \<Rightarrow> int \<Rightarrow> (int \<times> 'v) option" where
  "ell_cell ts k r = (if k < length (row_of ts r) then Some (row_of ts r ! k) else None)"

definition ell_array :: "(int \<times> 'v \<Rightarrow> 'a) \<Rightarrow> (int \<times> int \<times> 'v) list \<Rightarrow> nat \<Rightarrow> nat \<Rightarrow> nat \<Rightarrow> 'a array" where
  "ell_array g ts lo len w =
     map (\<lambda>p. map_option g (ell_cell ts (p div len) (int (lo + p mod len)))) [0..<w * len]"

definition ell_of :: "(int \<times> int \<times> 'v) list \<Rightarrow> int list \<Rightarrow> nat \<Rightarrow> nat \<Rightarrow> 'v MatrixDataELL" where
  "ell_of ts npr lo len =
     \<lparr>elements = max_nz npr lo (lo + len) * int len,
      lengthELL = map Some (take len (drop lo npr)),
      indexELL = ell_array fst ts lo len (nat (max_nz npr lo (lo + len))),
      dataELL = ell_array snd ts lo len (nat (max_nz npr lo (lo + len)))\<rparr>"

text \<open>
  The write cursors of the ELL construction: the number of entries placed so far, row by row.
\<close>

definition offs_count :: "(int \<times> int \<times> 'v) list \<Rightarrow> nat \<Rightarrow> int array \<Rightarrow> bool" where
  "offs_count ts n offs \<longleftrightarrow>
     length offs = n \<and> (\<forall>r<n. offs ! r = Some (int (length (row_of ts (int r)))))"



definition ell_row :: "int \<Rightarrow> 'v MatrixDataELL \<Rightarrow> int \<Rightarrow> (int option \<times> 'v option) list" where
  "ell_row n d r =
     (case aread (lengthELL d) r of
        Some l \<Rightarrow> map (\<lambda>k. (aread (indexELL d) (int k * n + r), aread (dataELL d) (int k * n + r)))
                    [0..<nat l]
      | None \<Rightarrow> [])"

definition cells :: "int \<times> 'v \<Rightarrow> int option \<times> 'v option" where
  "cells e = (Some (fst e), Some (snd e))"

text \<open>
  The largest per-row count of the triplet matrix.
\<close>

definition maxRowNz :: "'v MatrixCOO \<Rightarrow> int" where
  "maxRowNz coo = Max (insert 0 (set (nzPerRow coo)))"

text \<open>
  A triplet matrix with 65536 rows whose first row has 32768 entries, in the columns 0 to
  32767, and whose other rows are empty. All its fields fit \<open>int\<close>; \<open>N * maxRowNz\<close> is
  \<open>65536 * 32768 = 2^31\<close>.
\<close>

definition long_row :: "int MatrixCOO" where
  "long_row =
     \<lparr>N = 65536, nz = 32768, I = replicate 32768 0, J = map int [0..<32768],
      V = replicate 32768 1, nzPerRow = 32768 # replicate 65535 0\<rparr>"

text \<open>
  A work distribution for \<open>n\<close> rows whose chunks are contiguous, disjoint and cover
  \<open>[0, n)\<close>: chunk \<open>c\<close> is the range of the \<open>lengths[c]\<close> rows from \<open>offsets[c]\<close> on, every chunk
  lies within \<open>[0, n)\<close>, and every row of \<open>[0, n)\<close> lies in exactly one chunk. The chunks need
  not be listed in the order of their rows.
\<close>

definition wd_valid :: "WorkDistribution \<Rightarrow> int \<Rightarrow> bool" where
  "wd_valid wd n \<longleftrightarrow>
     0 \<le> numberOfChunks wd \<and>
     length (offsets wd) = nat (numberOfChunks wd) \<and>
     length (lengths wd) = nat (numberOfChunks wd) \<and>
     list_all (\<lambda>c. 0 \<le> offsets wd ! c \<and> 0 \<le> lengths wd ! c \<and> offsets wd ! c + lengths wd ! c \<le> n)
       [0..<nat (numberOfChunks wd)] \<and>
     list_all (\<lambda>row. length (filter (\<lambda>c. offsets wd ! c \<le> int row \<and>
                                        int row < offsets wd ! c + lengths wd ! c)
                               [0..<nat (numberOfChunks wd)]) = 1)
       [0..<nat n]"

text \<open>
  What the spec asks of \<open>findChunk\<close>: for every row in \<open>[0, n)\<close> it returns a chunk whose
  range contains the row.
\<close>

definition findChunk_correct :: "(int \<Rightarrow> int) \<Rightarrow> WorkDistribution \<Rightarrow> int \<Rightarrow> bool" where
  "findChunk_correct findChunk wd n \<longleftrightarrow>
     list_all (\<lambda>row. 0 \<le> findChunk (int row) \<and> findChunk (int row) < numberOfChunks wd \<and>
                 offsets wd ! nat (findChunk (int row)) \<le> int row \<and>
                 int row < offsets wd ! nat (findChunk (int row)) + lengths wd ! nat (findChunk (int row)))
       [0..<nat n]"

text \<open>
  The first row and the number of rows of a chunk, as natural numbers.
\<close>

definition chunk_lo :: "WorkDistribution \<Rightarrow> nat \<Rightarrow> nat" where
  "chunk_lo wd c = nat (offsets wd ! c)"

definition chunk_len :: "WorkDistribution \<Rightarrow> nat \<Rightarrow> nat" where
  "chunk_len wd c = nat (lengths wd ! c)"

text \<open>
  The largest per-row count among the rows of chunk \<open>c\<close>, and 0 for a chunk without rows.
\<close>

definition chunkMaxNz :: "'v MatrixCOO \<Rightarrow> WorkDistribution \<Rightarrow> nat \<Rightarrow> int" where
  "chunkMaxNz coo wd c =
     Max (insert 0 (set (take (nat (lengths wd ! c)) (drop (nat (offsets wd ! c)) (nzPerRow coo)))))"

text \<open>
  The value of \<open>elements\<close> that the ELL constructors compute for the rows
  \<open>lo, ..., lo + len - 1\<close>: the pad width of these rows times their number, as an \<open>int\<close>.
\<close>

definition ell_elems :: "int list \<Rightarrow> nat \<Rightarrow> nat \<Rightarrow> int" where
  "ell_elems npr lo len = int32 (max_nz npr lo (lo + len) * int len)"

text \<open>
  The ELL data of the rows \<open>lo, ..., lo + len - 1\<close> after the allocation, before the fill loop.
\<close>

definition ell_alloc :: "int list \<Rightarrow> nat \<Rightarrow> nat \<Rightarrow> 'v MatrixDataELL" where
  "ell_alloc npr lo len =
     \<lparr>elements = ell_elems npr lo len,
      lengthELL = map Some (take len (drop lo npr)),
      indexELL = replicate (nat (ell_elems npr lo len)) None,
      dataELL = replicate (nat (ell_elems npr lo len)) None\<rparr>"



text \<open>
  The triplet matrix of the rows \<open>offset, ..., offset + len - 1\<close> of a triplet matrix: the
  triplets of these rows in input order, with row indices and per-row counts relative to
  the first row of the range.
\<close>

definition coo_restrict :: "'v MatrixCOO \<Rightarrow> int \<Rightarrow> int \<Rightarrow> 'v MatrixCOO" where
  "coo_restrict coo offset len =
     (let keep = filter (\<lambda>t. offset \<le> fst t \<and> fst t < offset + len) (triplets coo)
      in \<lparr>N = len, nz = int (length keep),
          I = map (\<lambda>t. fst t - offset) keep,
          J = map (\<lambda>t. fst (snd t)) keep,
          V = map (\<lambda>t. snd (snd t)) keep,
          nzPerRow = take (nat len) (drop (nat offset) (nzPerRow coo))\<rparr>)"






section \<open>The loader\<close>

lemma increment_Some:
  "increment xs i = Some ys \<Longrightarrow> 0 \<le> i \<and> i < int (length xs) \<and> ys = xs[nat i := xs ! nat i + 1]"
  by (auto simp: increment_def lread_def lwrite_def split: if_splits option.splits)

lemma row_count_append: "row_count (xs @ [x]) r = row_count xs r + (if x = r then 1 else 0)"
  by (simp add: row_count_def)

lemma counts_update:
  assumes "0 \<le> x" "x < int n"
  shows "(map (\<lambda>r. row_count xs (int r)) [0..<n])[nat x := map (\<lambda>r. row_count xs (int r)) [0..<n] ! nat x + 1]
         = map (\<lambda>r. row_count (xs @ [x]) (int r)) [0..<n]"
  using assms by (auto simp: list_eq_iff_nth_eq nth_list_update row_count_append)

lemma increment_counts:
  assumes "increment (map (\<lambda>r. row_count xs (int r)) [0..<n]) x = Some ys"
  shows "0 \<le> x \<and> x < int n \<and> ys = map (\<lambda>r. row_count (xs @ [x]) (int r)) [0..<n]"
proof -
  from increment_Some [OF assms] have r: "0 \<le> x" "x < int n"
    and ys: "ys = (map (\<lambda>r. row_count xs (int r)) [0..<n])[nat x := map (\<lambda>r. row_count xs (int r)) [0..<n] ! nat x + 1]"
    by auto
  from counts_update [OF r] ys r show ?thesis by simp
qed

lemma int32_id: "- (2 ^ 31) \<le> x \<Longrightarrow> x < 2 ^ 31 \<Longrightarrow> int32 x = x"
  by (simp add: int32_def)

lemma int32_nonneg: "0 \<le> x \<Longrightarrow> x < 2 ^ 31 \<Longrightarrow> int32 x = x"
  by (simp add: int32_def)

lemma read_loop_correct:
  "loading coo i \<Longrightarrow> read_loop symmetric es i coo = Inr coo' \<Longrightarrow>
     loading coo' (int (length (I coo'))) \<and> N coo' = N coo \<and> nz coo' = nz coo \<and>
     nz coo \<le> int (length (I coo')) \<and>
     (\<exists>k\<le>length es. triplets coo' = triplets coo @ concat (map (stored symmetric) (take k es)))"
proof (induction symmetric es i coo rule: read_loop.induct)
  case (1 symmetric i coo)
  then show ?case
    by (auto simp: loading_def split: if_splits)
next
  case (2 symmetric r c v es i coo)
  show ?case
  proof (cases "i < nz coo")
    case False
    with "2.prems" have "coo' = coo" "nz coo \<le> int (length (I coo))" by (auto simp: loading_def)
    moreover from "2.prems"(1) have "loading coo (int (length (I coo)))" by (simp add: loading_def)
    moreover have "triplets coo = triplets coo @ concat (map (stored symmetric) (take 0 ((r, c, v) # es)))"
      by simp
    ultimately show ?thesis by blast
  next
    case True
    from "2.prems"(1) have npr: "nzPerRow coo = map (\<lambda>r. row_count (I coo) (int r)) [0..<nat (N coo)]"
      and len: "i = int (length (I coo))" "length (J coo) = length (I coo)" "length (V coo) = length (I coo)"
      and rng: "list_all (\<lambda>r. 0 \<le> r \<and> r < N coo) (I coo)" and n0: "0 \<le> N coo"
      by (auto simp: loading_def)
    from "2.prems"(2) True obtain npr1 where inc1: "increment (nzPerRow coo) (r - 1) = Some npr1"
      by (auto split: option.splits)
    from increment_counts [OF inc1 [unfolded npr]] n0
    have r: "0 \<le> r - 1" "r - 1 < N coo"
      and npr1: "npr1 = map (\<lambda>q. row_count (I coo @ [r - 1]) (int q)) [0..<nat (N coo)]"
      by auto
    show ?thesis
    proof (cases "symmetric \<and> r - 1 \<noteq> c - 1")
      case False
      let ?coo1 = "coo\<lparr>I := I coo @ [r - 1], J := J coo @ [c - 1], V := V coo @ [v], nzPerRow := npr1\<rparr>"
      from "2.prems"(2) True inc1 False have rl: "read_loop symmetric es (i + 1) ?coo1 = Inr coo'"
        by (auto split: if_splits)
      have "loading ?coo1 (i + 1)"
        using len rng n0 r npr1 by (simp add: loading_def)
      from "2.IH"(2) [OF True inc1 False this rl]
      obtain k where k: "k \<le> length es" "loading coo' (int (length (I coo')))"
        "N coo' = N coo" "nz coo' = nz coo" "nz coo \<le> int (length (I coo'))"
        "triplets coo' = triplets ?coo1 @ concat (map (stored symmetric) (take k es))"
        by auto
      have "triplets ?coo1 = triplets coo @ stored symmetric (r, c, v)"
        using len False by (auto simp: triplets_def stored_def)
      with k have "triplets coo' = triplets coo @ concat (map (stored symmetric) (take (Suc k) ((r, c, v) # es)))"
        by simp
      moreover have "Suc k \<le> length ((r, c, v) # es)" using k by simp
      ultimately show ?thesis using k by blast
    next
      case sym: True
      from "2.prems"(2) True inc1 sym obtain npr2 where inc2: "increment npr1 (c - 1) = Some npr2"
        by (auto split: option.splits)
      from increment_counts [OF inc2 [unfolded npr1]] n0
      have c: "0 \<le> c - 1" "c - 1 < N coo"
        and npr2: "npr2 = map (\<lambda>q. row_count (I coo @ [r - 1, c - 1]) (int q)) [0..<nat (N coo)]"
        by auto
      let ?coo2 = "coo\<lparr>I := I coo @ [r - 1, c - 1], J := J coo @ [c - 1, r - 1], V := V coo @ [v, v], nzPerRow := npr2\<rparr>"
      from "2.prems"(2) True inc1 sym inc2 have rl: "read_loop symmetric es (i + 1 + 1) ?coo2 = Inr coo'"
        by auto
      have "loading ?coo2 (i + 1 + 1)"
        using len rng n0 r c npr2 by (simp add: loading_def)
      from "2.IH"(1) [OF True inc1 sym inc2 this rl]
      obtain k where k: "k \<le> length es" "loading coo' (int (length (I coo')))"
        "N coo' = N coo" "nz coo' = nz coo" "nz coo \<le> int (length (I coo'))"
        "triplets coo' = triplets ?coo2 @ concat (map (stored symmetric) (take k es))"
        by auto
      have "triplets ?coo2 = triplets coo @ stored symmetric (r, c, v)"
        using len sym by (auto simp: triplets_def stored_def)
      with k have "triplets coo' = triplets coo @ concat (map (stored symmetric) (take (Suc k) ((r, c, v) # es)))"
        by simp
      moreover have "Suc k \<le> length ((r, c, v) # es)" using k by simp
      ultimately show ?thesis using k by blast
    qed
  qed
qed

lemma read_loop_no_exit: "read_loop symmetric es i coo \<noteq> Inl (Exit e)"
  by (induction symmetric es i coo rule: read_loop.induct) (auto split: option.splits)

lemma sum_row_count:
  "list_all (\<lambda>r. 0 \<le> r \<and> r < int n) xs \<Longrightarrow>
   sum_list (map (\<lambda>r. row_count xs (int r)) [0..<n]) = int (length xs)"
proof (induction xs)
  case Nil
  then show ?case by (simp add: row_count_def)
next
  case (Cons x xs)
  then have x: "0 \<le> x" "x < int n" by auto
  have "row_count (x # xs) = (\<lambda>r. (if x = r then 1 else 0) + row_count xs r)"
    by (auto simp: row_count_def)
  then have "sum_list (map (\<lambda>r. row_count (x # xs) (int r)) [0..<n])
      = (\<Sum>r\<leftarrow>[0..<n]. if x = int r then 1 else 0) + sum_list (map (\<lambda>r. row_count xs (int r)) [0..<n])"
    by (simp add: sum_list_addf)
  moreover have "(\<Sum>r\<leftarrow>[0..<n]. if x = int r then 1 else 0) = (1::int)"
  proof -
    have eq: "\<And>r. (x = int r) = (r = nat x)" using x by auto
    have "(\<Sum>r\<leftarrow>[0..<n]. if x = int r then 1 else 0) = (\<Sum>r\<in>{0..<n}. if r = nat x then 1 else (0::int))"
      by (simp add: interv_sum_list_conv_sum_set_nat eq)
    also have "\<dots> = 1" using x by (simp add: nat_less_iff)
    finally show ?thesis .
  qed
  ultimately show ?case using Cons by simp
qed

text \<open>
  What the loader returns: the arrays hold the first \<open>nz\<close> of the cells that the read
  loop has written, which are the entries of the file, each followed by its mirror where
  it has one; at least \<open>nz\<close> cells were written, and \<open>nzPerRow\<close> counts all of them.
\<close>

lemma load_cells:
  assumes "MatrixCOO_load file = Inr coo"
  shows "\<exists>k\<le>length (entries file). \<exists>cells.
    cells = concat (map (stored (declared_symmetric file)) (take k (entries file))) \<and>
    0 \<le> N coo \<and> 0 \<le> nz coo \<and> nat (nz coo) \<le> length cells \<and>
    triplets coo = take (nat (nz coo)) cells \<and>
    length (I coo) = nat (nz coo) \<and> length (J coo) = nat (nz coo) \<and> length (V coo) = nat (nz coo) \<and>
    list_all (\<lambda>r. 0 \<le> r \<and> r < N coo) (map fst cells) \<and>
    nzPerRow coo = map (\<lambda>r. row_count (map fst cells) (int r)) [0..<nat (N coo)]"
proof -
  from assms obtain matcode M n nz0 where
    b: "mm_read_banner file = Some matcode" and s: "mm_read_mtx_crd_size file = Some (M, n, nz0)"
    by (auto simp: MatrixCOO_load_def split: if_splits option.splits)
  define nz1 where "nz1 = (if mm_is_symmetric matcode then int32 (2 * nz0 - n) else nz0)"
  define coo0 :: "'a MatrixCOO" where
    "coo0 = \<lparr>N = n, nz = nz1, I = [], J = [], V = [], nzPerRow = replicate (nat n) 0\<rparr>"
  from assms b s obtain raw where ok: "0 \<le> nz1" "0 \<le> n"
    and rl: "read_loop (mm_is_symmetric matcode) (entries file) 0 coo0 = Inr raw"
    and coo: "coo = raw\<lparr>I := take (nat nz1) (I raw), J := take (nat nz1) (J raw),
                        V := take (nat nz1) (V raw)\<rparr>"
    by (auto simp: MatrixCOO_load_def Let_def nz1_def coo0_def split: if_splits sum.splits)
  have "replicate (nat n) (0::int) = map (\<lambda>r. row_count [] (int r)) [0..<nat n]"
    by (simp add: row_count_def list_eq_iff_nth_eq)
  with ok have "loading coo0 0"
    by (simp add: loading_def coo0_def)
  from read_loop_correct [OF this rl] obtain k where k: "k \<le> length (entries file)"
    and ld: "loading raw (int (length (I raw)))" and same: "N raw = n" "nz raw = nz1"
    and enough: "nz1 \<le> int (length (I raw))"
    and tr: "triplets raw = concat (map (stored (mm_is_symmetric matcode)) (take k (entries file)))"
    by (auto simp: coo0_def triplets_def)
  define cells where "cells = concat (map (stored (declared_symmetric file)) (take k (entries file)))"
  from tr b have raw: "triplets raw = cells" by (simp add: cells_def declared_symmetric_def)
  from ld have lens: "length (J raw) = length (I raw)" "length (V raw) = length (I raw)"
    by (simp_all add: loading_def)
  with raw have fst: "map fst cells = I raw" and lc: "length cells = length (I raw)"
    by (simp_all add: triplets_def flip: raw)
  have "triplets coo = take (nat nz1) (triplets raw)"
    by (simp add: coo triplets_def take_zip)
  with raw have t: "triplets coo = take (nat nz1) cells" by simp
  from ld same have "list_all (\<lambda>r. 0 \<le> r \<and> r < N coo) (map fst cells)"
    "nzPerRow coo = map (\<lambda>r. row_count (map fst cells) (int r)) [0..<nat (N coo)]"
    by (simp_all add: loading_def fst coo)
  with k ok enough lens lc t same show ?thesis
    unfolding cells_def by (intro exI [of _ k]) (simp add: coo)
qed


lemma load_correct:
  assumes "MatrixCOO_load file = Inr coo" and "sum_list (nzPerRow coo) = nz coo"
  shows "wf_coo coo \<and>
    (\<exists>k\<le>length (entries file).
       triplets coo = concat (map (stored (declared_symmetric file)) (take k (entries file))))"
proof -
  from load_cells [OF assms(1)] obtain k cells where k: "k \<le> length (entries file)"
    and cells: "cells = concat (map (stored (declared_symmetric file)) (take k (entries file)))"
    and n0: "0 \<le> N coo" "0 \<le> nz coo" and t: "triplets coo = take (nat (nz coo)) cells"
    and lens: "length (I coo) = nat (nz coo)" "length (J coo) = nat (nz coo)" "length (V coo) = nat (nz coo)"
    and rng: "list_all (\<lambda>r. 0 \<le> r \<and> r < N coo) (map fst cells)"
    and npr: "nzPerRow coo = map (\<lambda>r. row_count (map fst cells) (int r)) [0..<nat (N coo)]"
    by blast
  from rng n0 have "list_all (\<lambda>r. 0 \<le> r \<and> r < int (nat (N coo))) (map fst cells)" by simp
  from sum_row_count [OF this] npr assms(2) have "int (length cells) = nz coo" by simp
  with t have all: "triplets coo = cells" by simp
  from lens have "I coo = map fst (triplets coo)" by (simp add: triplets_def)
  with all have "I coo = map fst cells" by simp
  with rng npr n0 lens have "wf_coo coo" by (simp add: wf_coo_def)
  with all cells k show ?thesis by blast
qed

lemma length_stored_symmetric:
  "int (length (concat (map (stored True) es)))
     = 2 * int (length es) - int (length (filter (\<lambda>(r, c, v). r = c) es))"
  by (induction es) (auto simp: stored_def)

lemma load_symmetric_count:
  assumes "MatrixCOO_load file = Inr coo" and "declared_symmetric file"
    and "triplets coo = concat (map (stored True) (entries file))"
  shows "nz coo = 2 * int (length (entries file))
                    - int (length (filter (\<lambda>(r, c, v). r = c) (entries file)))"
proof -
  from load_cells [OF assms(1)] have "nz coo = int (length (triplets coo))"
    by (auto simp: triplets_def)
  with assms(3) show ?thesis
    by (simp only: length_stored_symmetric)
qed

text \<open>
  Claim C3. For a file declared symmetric with \<open>U\<close> stored entries of which \<open>D\<close> lie on
  the diagonal, the loader's nonzero count after mirroring is \<open>2U - D\<close>. The constructor
  sets \<open>nz = 2 * nz - N\<close> before it reads any entry, with the dimension \<open>N\<close> in the place
  of \<open>D\<close>. The first file declares a symmetric 2 by 2 matrix with the one entry
  \<open>(1, 1, 5)\<close>, so \<open>U = 1\<close> and \<open>D = 1\<close> and the count should be 1: the loader returns
  the empty matrix with \<open>nz = 0\<close>. The second file has the entries \<open>(1, 1, 5)\<close> and
  \<open>(1, 2, 7)\<close>, so the count should be 3: the arrays get \<open>2 * 2 - 2 = 2\<close> cells, the
  mirrored entry \<open>(2, 1, 7)\<close> is written past their end, and the loader returns a matrix
  with \<open>nz = 2\<close>.
\<close>

theorem symmetric_count_uses_dimension:
  "MatrixCOO_load
     \<lparr>fopen_ok = True,
      mm_read_banner = Some \<lparr>mm_is_sparse = True, mm_is_real = True, mm_is_symmetric = True\<rparr>,
      mm_read_mtx_crd_size = Some (2, 2, 1),
      entries = [(1, 1, 5 :: int)]\<rparr>
   = Inr \<lparr>N = 2, nz = 0, I = [], J = [], V = [], nzPerRow = [0, 0]\<rparr> \<and>
   MatrixCOO_load
     \<lparr>fopen_ok = True,
      mm_read_banner = Some \<lparr>mm_is_sparse = True, mm_is_real = True, mm_is_symmetric = True\<rparr>,
      mm_read_mtx_crd_size = Some (2, 2, 2),
      entries = [(1, 1, 5 :: int), (1, 2, 7)]\<rparr>
   = Inr \<lparr>N = 2, nz = 2, I = [0, 0], J = [0, 1], V = [5, 7], nzPerRow = [2, 1]\<rparr>"
  by (simp add: MatrixCOO_load_def int32_def increment_def lread_def lwrite_def numeral_2_eq_2)

theorem symmetric_count_uses_dimension_witness:
  "map_sum id nz (MatrixCOO_load
     \<lparr>fopen_ok = True,
      mm_read_banner = Some \<lparr>mm_is_sparse = True, mm_is_real = True, mm_is_symmetric = True\<rparr>,
      mm_read_mtx_crd_size = Some (2, 2, 1),
      entries = [(1, 1, 5 :: int)]\<rparr>) = Inr 0 \<and>
   2 * int (length [(1 :: int, 1 :: int, 5 :: int)])
     - int (length (filter (\<lambda>(r, c, v). r = c) [(1 :: int, 1 :: int, 5 :: int)])) = 1"
  using symmetric_count_uses_dimension by simp

text \<open>
  Claim C7, as the specification states it: the loader exits with an error exactly when
  one of the four listed conditions holds. It fails on a file that opens, carries a
  valid banner of a real sparse matrix, and has a size line that cannot be read: the
  loader exits ("Could not read matrix size!") although none of the four conditions
  holds.
\<close>

theorem loader_exit_counterexample:
  "MatrixCOO_load
     \<lparr>fopen_ok = True,
      mm_read_banner = Some \<lparr>mm_is_sparse = True, mm_is_real = True, mm_is_symmetric = False\<rparr>,
      mm_read_mtx_crd_size = None,
      entries = ([] :: (int \<times> int \<times> int) list)\<rparr>
   = Inl (Exit BadSize) \<and>
   \<not> spec_fatal_conditions
     \<lparr>fopen_ok = True,
      mm_read_banner = Some \<lparr>mm_is_sparse = True, mm_is_real = True, mm_is_symmetric = False\<rparr>,
      mm_read_mtx_crd_size = None,
      entries = ([] :: (int \<times> int \<times> int) list)\<rparr>"
  by (simp add: MatrixCOO_load_def spec_fatal_conditions_def)

text \<open>
  Claim C7, amended. The loader reports an error and exits with status 1 exactly when
  the file cannot be opened, the banner cannot be processed, the type is not a real
  sparse matrix, the size line cannot be read, or the dimensions are not square;
  otherwise it goes on to allocate the arrays and read the entries.
\<close>

theorem loader_exit_conditions:
  "(\<exists>e. MatrixCOO_load file = Inl (Exit e)) \<longleftrightarrow>
     spec_fatal_conditions file \<or> mm_read_mtx_crd_size file = None"
  by (auto simp: MatrixCOO_load_def spec_fatal_conditions_def Let_def read_loop_no_exit
      split: option.splits sum.splits)

theorem loader_exit_conditions_witness:
  "(\<exists>e. MatrixCOO_load
     \<lparr>fopen_ok = True,
      mm_read_banner = Some \<lparr>mm_is_sparse = True, mm_is_real = True, mm_is_symmetric = False\<rparr>,
      mm_read_mtx_crd_size = Some (2, 3, 1),
      entries = [(1, 1, 5 :: int)]\<rparr> = Inl (Exit e)) \<and>
   \<not> (\<exists>e. MatrixCOO_load
     \<lparr>fopen_ok = True,
      mm_read_banner = Some \<lparr>mm_is_sparse = True, mm_is_real = True, mm_is_symmetric = False\<rparr>,
      mm_read_mtx_crd_size = Some (2, 2, 1),
      entries = [(1, 1, 5 :: int)]\<rparr> = Inl (Exit e))"
  using loader_exit_conditions [of "\<lparr>fopen_ok = True,
      mm_read_banner = Some \<lparr>mm_is_sparse = True, mm_is_real = True, mm_is_symmetric = False\<rparr>,
      mm_read_mtx_crd_size = Some (2, 3, 1),
      entries = [(1, 1, 5 :: int)]\<rparr>"]
    loader_exit_conditions [of "\<lparr>fopen_ok = True,
      mm_read_banner = Some \<lparr>mm_is_sparse = True, mm_is_real = True, mm_is_symmetric = False\<rparr>,
      mm_read_mtx_crd_size = Some (2, 2, 1),
      entries = [(1, 1, 5 :: int)]\<rparr>"]
  by (simp add: spec_fatal_conditions_def)

text \<open>
  Claim C10. After the loader has finished, the per-row counts \<open>nzPerRow\<close> sum to the
  stored nonzero count \<open>nz\<close>, and every mirrored entry is stored immediately after its
  source entry. The file declares a symmetric 2 by 2 matrix with two entries,
  \<open>(1, 1, 5)\<close> and \<open>(1, 2, 7)\<close>. The constructor sets \<open>nz = 2 * 2 - 2 = 2\<close> (the
  dimension in the place of the number of diagonal entries, as for claim C3), so the
  arrays have two cells; the second entry fills the last cell, its mirror \<open>(2, 1, 7)\<close> is
  written past the end of the arrays and counted in \<open>nzPerRow[1]\<close>. The loader returns
  with \<open>nz = 2\<close> and the counts \<open>[2, 1]\<close>, which sum to 3, and the mirrored entry
  \<open>(1, 0, 7)\<close> (0-based) that \<open>stored\<close> puts after \<open>(0, 1, 7)\<close> is not among the
  triplets of the matrix.
\<close>

theorem mirror_past_end_breaks_counts:
  "MatrixCOO_load
     \<lparr>fopen_ok = True,
      mm_read_banner = Some \<lparr>mm_is_sparse = True, mm_is_real = True, mm_is_symmetric = True\<rparr>,
      mm_read_mtx_crd_size = Some (2, 2, 2),
      entries = [(1, 1, 5 :: int), (1, 2, 7)]\<rparr>
   = Inr \<lparr>N = 2, nz = 2, I = [0, 0], J = [0, 1], V = [5, 7], nzPerRow = [2, 1]\<rparr> \<and>
   sum_list (nzPerRow \<lparr>N = 2, nz = 2, I = [0, 0], J = [0, 1], V = [5, 7 :: int],
                        nzPerRow = [2, 1]\<rparr>) = 3 \<and>
   nz \<lparr>N = 2, nz = 2, I = [0, 0], J = [0, 1], V = [5, 7 :: int], nzPerRow = [2, 1]\<rparr> = 2 \<and>
   triplets \<lparr>N = 2, nz = 2, I = [0, 0], J = [0, 1], V = [5, 7 :: int], nzPerRow = [2, 1]\<rparr>
     = [(0, 0, 5), (0, 1, 7)] \<and>
   stored True (1, 2, 7 :: int) = [(0, 1, 7), (1, 0, 7)]"
  by (simp add: MatrixCOO_load_def int32_def increment_def lread_def lwrite_def numeral_2_eq_2
      triplets_def stored_def)

theorem mirror_past_end_breaks_counts_witness:
  "map_sum id (\<lambda>coo. sum_list (nzPerRow coo) - nz coo) (MatrixCOO_load
     \<lparr>fopen_ok = True,
      mm_read_banner = Some \<lparr>mm_is_sparse = True, mm_is_real = True, mm_is_symmetric = True\<rparr>,
      mm_read_mtx_crd_size = Some (2, 2, 2),
      entries = [(1, 1, 5 :: int), (1, 2, 7)]\<rparr>) = Inr 1"
  using mirror_past_end_breaks_counts by simp

section \<open>The kernel wrappers\<close>

text \<open>
  Claim C8. For each of the five kernel categories the timing wrapper hands the engine
  to the backend kernel once and returns what the kernel returns: the engine state
  (and, for the dot product, the number) is that of the bare kernel, a kernel that stops
  the process stops the wrapper, and the wrapper changes nothing else but the one
  timing total of its category, to which it adds the elapsed time.
\<close>

theorem timing_wrappers_transparent:
  "map_sum id engine (matvec K t0 t1 x y cg) = matvecKernel K x y (engine cg) \<and>
   map_sum id engine (axpy K t0 t1 a x y cg) = axpyKernel K a x y (engine cg) \<and>
   map_sum id engine (xpay K t0 t1 x a y cg) = xpayKernel K x a y (engine cg) \<and>
   map_sum id (map_prod id engine) (vectorDot K t0 t1 x y cg) = vectorDotKernel K x y (engine cg) \<and>
   map_sum id engine (applyPreconditioner K t0 t1 x y cg) = applyPreconditionerKernel K x y (engine cg) \<and>
   (\<forall>cg'. matvec K t0 t1 x y cg = Inr cg' \<longrightarrow>
      cg' = cg\<lparr>engine := engine cg',
               timing := (timing cg)\<lparr>t_matvec := t_matvec (timing cg) + (t1 - t0)\<rparr>\<rparr>) \<and>
   (\<forall>cg'. axpy K t0 t1 a x y cg = Inr cg' \<longrightarrow>
      cg' = cg\<lparr>engine := engine cg',
               timing := (timing cg)\<lparr>t_axpy := t_axpy (timing cg) + (t1 - t0)\<rparr>\<rparr>) \<and>
   (\<forall>cg'. xpay K t0 t1 x a y cg = Inr cg' \<longrightarrow>
      cg' = cg\<lparr>engine := engine cg',
               timing := (timing cg)\<lparr>t_xpay := t_xpay (timing cg) + (t1 - t0)\<rparr>\<rparr>) \<and>
   (\<forall>res cg'. vectorDot K t0 t1 x y cg = Inr (res, cg') \<longrightarrow>
      cg' = cg\<lparr>engine := engine cg',
               timing := (timing cg)\<lparr>t_vectorDot := t_vectorDot (timing cg) + (t1 - t0)\<rparr>\<rparr>) \<and>
   (\<forall>cg'. applyPreconditioner K t0 t1 x y cg = Inr cg' \<longrightarrow>
      cg' = cg\<lparr>engine := engine cg',
               timing := (timing cg)\<lparr>t_preconditioner := t_preconditioner (timing cg) + (t1 - t0)\<rparr>\<rparr>)"
  by (auto simp: matvec_def axpy_def xpay_def vectorDot_def applyPreconditioner_def
      split: sum.splits)

theorem timing_wrappers_transparent_witness:
  "matvec
     \<lparr>supportsPreconditioner = supportsPreconditioner_default,
      matvecKernel = (\<lambda>x y e. Inr (e\<lparr>members := 2 * members e\<rparr>)),
      axpyKernel = (\<lambda>a x y e. Inr e), xpayKernel = (\<lambda>x a y e. Inr e),
      vectorDotKernel = (\<lambda>x y e. Inr (members e, e)),
      applyPreconditionerKernel = applyPreconditionerKernel_default\<rparr>
     1 3 VectorP VectorQ
     \<lparr>iteration = 0, maxIterations = 1000, residual = 0, tolerance = 1,
      timing = \<lparr>t_io = 0, t_converting = 0, t_solve = 0, t_matvec = 5, t_axpy = 0, t_xpay = 0,
                t_vectorDot = 0, t_preconditioner = 0\<rparr>,
      engine = \<lparr>matrixFormat = MatrixFormatCRS, preconditioner = PreconditionerNone,
                members = (21 :: int)\<rparr>\<rparr>
   = Inr \<lparr>iteration = 0, maxIterations = 1000, residual = 0 :: int, tolerance = 1,
      timing = \<lparr>t_io = 0, t_converting = 0, t_solve = 0, t_matvec = 7, t_axpy = 0, t_xpay = 0,
                t_vectorDot = 0, t_preconditioner = 0\<rparr>,
      engine = \<lparr>matrixFormat = MatrixFormatCRS, preconditioner = PreconditionerNone,
                members = 42\<rparr>\<rparr>"
proof -
  let ?K = "\<lparr>supportsPreconditioner = supportsPreconditioner_default,
      matvecKernel = (\<lambda>x y e. Inr (e\<lparr>members := 2 * members e\<rparr>)),
      axpyKernel = (\<lambda>a x y e. Inr e), xpayKernel = (\<lambda>x a y e. Inr e),
      vectorDotKernel = (\<lambda>x y e. Inr (members e, e)),
      applyPreconditionerKernel = applyPreconditionerKernel_default\<rparr>
      :: (int, int) Kernels"
  let ?cg = "\<lparr>iteration = 0, maxIterations = 1000, residual = 0 :: int, tolerance = 1,
      timing = \<lparr>t_io = 0, t_converting = 0, t_solve = 0, t_matvec = 5, t_axpy = 0, t_xpay = 0,
                t_vectorDot = 0, t_preconditioner = 0\<rparr>,
      engine = \<lparr>matrixFormat = MatrixFormatCRS, preconditioner = PreconditionerNone,
                members = (21 :: int)\<rparr>\<rparr>"
  obtain cg' where run: "matvec ?K 1 3 VectorP VectorQ ?cg = Inr cg'"
    by (simp add: matvec_def)
  from timing_wrappers_transparent [of ?K 1 3 VectorP VectorQ ?cg]
  have "map_sum id engine (matvec ?K 1 3 VectorP VectorQ ?cg) = matvecKernel ?K VectorP VectorQ (engine ?cg)"
    and "\<forall>cg'. matvec ?K 1 3 VectorP VectorQ ?cg = Inr cg' \<longrightarrow>
      cg' = ?cg\<lparr>engine := engine cg',
               timing := (timing ?cg)\<lparr>t_matvec := t_matvec (timing ?cg) + (3 - 1)\<rparr>\<rparr>"
    by blast+
  with run have "engine cg' = \<lparr>matrixFormat = MatrixFormatCRS, preconditioner = PreconditionerNone,
                members = 42\<rparr>"
    and "cg' = ?cg\<lparr>engine := engine cg',
               timing := (timing ?cg)\<lparr>t_matvec := t_matvec (timing ?cg) + (3 - 1)\<rparr>\<rparr>"
    by auto
  with run show ?thesis by simp
qed

text \<open>
  Claim C9. For an engine that overrides neither of them, \<open>supportsPreconditioner\<close> is
  false for every kind of preconditioner and every call of
  \<open>applyPreconditionerKernel\<close>, bare or through its timing wrapper, fails the assertion.
  Hence when the configuration has been validated (a preconditioner other than "none"
  is selected only if the engine supports it), the selected preconditioner is "none"
  and the solver's preconditioning step returns without calling the kernel.
\<close>

theorem default_preconditioner_unreachable:
  assumes "supportsPreconditioner K = supportsPreconditioner_default"
    and "applyPreconditionerKernel K = applyPreconditionerKernel_default"
  shows "(\<forall>p. \<not> supportsPreconditioner K p) \<and>
         (\<forall>x y e. applyPreconditionerKernel K x y e = Inl AssertionFailed) \<and>
         (\<forall>t0 t1 x y cg. applyPreconditioner K t0 t1 x y cg = Inl AssertionFailed) \<and>
         (\<forall>t0 t1 cg. preconditioner_validated K cg \<longrightarrow> solve_precondition K t0 t1 cg = Inr cg)"
  using assms
  by (auto simp: supportsPreconditioner_default_def applyPreconditionerKernel_default_def
      applyPreconditioner_def preconditioner_validated_def solve_precondition_def)

theorem default_preconditioner_unreachable_witness:
  "solve_precondition
     \<lparr>supportsPreconditioner = supportsPreconditioner_default,
      matvecKernel = (\<lambda>x y e. Inr e), axpyKernel = (\<lambda>a x y e. Inr e),
      xpayKernel = (\<lambda>x a y e. Inr e), vectorDotKernel = (\<lambda>x y e. Inr (0 :: int, e)),
      applyPreconditionerKernel = applyPreconditionerKernel_default\<rparr>
     1 3
     \<lparr>iteration = 0, maxIterations = 1000, residual = 0, tolerance = 1,
      timing = \<lparr>t_io = 0, t_converting = 0, t_solve = 0, t_matvec = 0, t_axpy = 0, t_xpay = 0,
                t_vectorDot = 0, t_preconditioner = 0\<rparr>,
      engine = \<lparr>matrixFormat = MatrixFormatCRS, preconditioner = PreconditionerNone,
                members = (21 :: int)\<rparr>\<rparr>
   = Inr \<lparr>iteration = 0, maxIterations = 1000, residual = 0, tolerance = 1,
      timing = \<lparr>t_io = 0, t_converting = 0, t_solve = 0, t_matvec = 0, t_axpy = 0, t_xpay = 0,
                t_vectorDot = 0, t_preconditioner = 0\<rparr>,
      engine = \<lparr>matrixFormat = MatrixFormatCRS, preconditioner = PreconditionerNone,
                members = 21\<rparr>\<rparr> \<and>
   applyPreconditioner
     \<lparr>supportsPreconditioner = supportsPreconditioner_default,
      matvecKernel = (\<lambda>x y e. Inr e), axpyKernel = (\<lambda>a x y e. Inr e),
      xpayKernel = (\<lambda>x a y e. Inr e), vectorDotKernel = (\<lambda>x y e. Inr (0 :: int, e)),
      applyPreconditionerKernel = applyPreconditionerKernel_default\<rparr>
     1 3 VectorR VectorZ
     \<lparr>iteration = 0, maxIterations = 1000, residual = 0, tolerance = 1,
      timing = \<lparr>t_io = 0, t_converting = 0, t_solve = 0, t_matvec = 0, t_axpy = 0, t_xpay = 0,
                t_vectorDot = 0, t_preconditioner = 0\<rparr>,
      engine = \<lparr>matrixFormat = MatrixFormatCRS, preconditioner = PreconditionerJacobi,
                members = (21 :: int)\<rparr>\<rparr>
   = Inl AssertionFailed"
proof -
  let ?K = "\<lparr>supportsPreconditioner = supportsPreconditioner_default,
      matvecKernel = (\<lambda>x y e. Inr e), axpyKernel = (\<lambda>a x y e. Inr e),
      xpayKernel = (\<lambda>x a y e. Inr e), vectorDotKernel = (\<lambda>x y e. Inr (0 :: int, e)),
      applyPreconditionerKernel = applyPreconditionerKernel_default\<rparr> :: (int, int) Kernels"
  let ?cg = "\<lparr>iteration = 0, maxIterations = 1000, residual = 0 :: int, tolerance = 1,
      timing = \<lparr>t_io = 0, t_converting = 0, t_solve = 0, t_matvec = 0, t_axpy = 0, t_xpay = 0,
                t_vectorDot = 0, t_preconditioner = 0\<rparr>,
      engine = \<lparr>matrixFormat = MatrixFormatCRS, preconditioner = PreconditionerNone,
                members = (21 :: int)\<rparr>\<rparr>"
  have d: "supportsPreconditioner ?K = supportsPreconditioner_default"
    "applyPreconditionerKernel ?K = applyPreconditionerKernel_default"
    by simp_all
  have v: "preconditioner_validated ?K ?cg"
    by (simp add: preconditioner_validated_def)
  from default_preconditioner_unreachable [OF d] v show ?thesis
    by blast
qed

section \<open>The conversions\<close>

subsection \<open>Loops, checked accesses and rows\<close>

lemma for_loop_rule:
  assumes "i \<le> n" and "P i s"
    and "\<And>j t. i \<le> j \<Longrightarrow> j < n \<Longrightarrow> P j t \<Longrightarrow> \<exists>t'. body j t = Some t' \<and> P (j + 1) t'"
  shows "\<exists>t. for_loop i n body s = Some t \<and> P n t"
  using assms
proof (induction i n body s rule: for_loop.induct)
  case (1 i n body s)
  show ?case
  proof (cases "i < n")
    case False
    with "1.prems" have "i = n" by simp
    with "1.prems" show ?thesis by (simp add: for_loop.simps)
  next
    case True
    from "1.prems"(3) [OF _ True "1.prems"(2)] obtain s' where
      s': "body i s = Some s'" "P (i + 1) s'" by auto
    have "\<exists>t. for_loop (i + 1) n body s' = Some t \<and> P n t"
    proof (rule "1.IH" [OF True s'(1) _ s'(2)])
      show "i + 1 \<le> n" using True by simp
    next
      fix j t assume "i + 1 \<le> j" "j < n" "P j t"
      then show "\<exists>t'. body j t = Some t' \<and> P (j + 1) t'"
        using "1.prems"(3) [of j t] by simp
    qed
    with True s' show ?thesis by (simp add: for_loop.simps [of i])
  qed
qed

lemma for_loop_fails:
  assumes "i \<le> c" "c < n" "\<And>s. body c s = None"
  shows "for_loop i n body s = None"
  using assms
proof (induction i n body s rule: for_loop.induct)
  case (1 i n body s)
  from "1.prems" have lt: "i < n" by simp
  show ?case
  proof (cases "body i s")
    case None
    with lt show ?thesis by (simp add: for_loop.simps [of i])
  next
    case (Some s')
    with "1.prems"(3) have "i \<noteq> c" by auto
    with "1.prems" have "i + 1 \<le> c" by simp
    from "1.IH" [OF lt Some this "1.prems"(2,3)] lt Some show ?thesis
      by (simp add: for_loop.simps [of i])
  qed
qed

lemma aread_int [simp]: "aread a (int k) = (if k < length a then a ! k else None)"
  by (simp add: aread_def)

lemma awrite_int [simp]: "awrite a (int k) v = (if k < length a then Some (a[k := Some v]) else None)"
  by (simp add: awrite_def)

lemma lread_int [simp]: "lread xs (int k) = (if k < length xs then Some (xs ! k) else None)"
  by (simp add: lread_def)

lemma lwrite_int [simp]: "lwrite xs (int k) v = (if k < length xs then Some (xs[k := v]) else None)"
  by (simp add: lwrite_def)

lemma row_of_append: "row_of (xs @ ys) r = row_of xs r @ row_of ys r"
  by (simp add: row_of_def)

lemma row_of_take_Suc:
  "i < length ts \<Longrightarrow>
   row_of (take (Suc i) ts) r = row_of (take i ts) r @ (if fst (ts ! i) = r then [snd (ts ! i)] else [])"
  by (simp add: take_Suc_conv_app_nth row_of_def)

lemma row_of_take_le: "length (row_of (take i ts) r) \<le> length (row_of ts r)"
proof -
  have "row_of ts r = row_of (take i ts) r @ row_of (drop i ts) r"
    by (simp add: row_of_append [symmetric])
  then show ?thesis by simp
qed

lemma row_of_take_less:
  assumes "i < length ts" "fst (ts ! i) = r"
  shows "length (row_of (take i ts) r) < length (row_of ts r)"
proof -
  have "length (row_of (take (Suc i) ts) r) \<le> length (row_of ts r)" by (rule row_of_take_le)
  with assms show ?thesis by (simp add: row_of_take_Suc)
qed


lemma rows_from_same [simp]: "rows_from ts lo lo = []"
  by (simp add: rows_from_def)




subsection \<open>Filling the CRS arrays\<close>









subsection \<open>Consequences of the class invariant\<close>

lemma wf_coo_triplets:
  assumes "wf_coo coo"
  shows "length (triplets coo) = nat (nz coo)"
    and "i < nat (nz coo) \<Longrightarrow> triplets coo ! i = (I coo ! i, J coo ! i, V coo ! i)"
    and "i < nat (nz coo) \<Longrightarrow> \<exists>q<nat (N coo). I coo ! i = int q"
  using assms
proof -
  from assms show "length (triplets coo) = nat (nz coo)"
    by (simp add: wf_coo_def triplets_def)
  from assms show "i < nat (nz coo) \<Longrightarrow> triplets coo ! i = (I coo ! i, J coo ! i, V coo ! i)"
    by (simp add: wf_coo_def triplets_def)
  assume "i < nat (nz coo)"
  with assms have "0 \<le> I coo ! i \<and> I coo ! i < N coo"
    by (simp add: wf_coo_def list_all_length)
  then have "nat (I coo ! i) < nat (N coo) \<and> I coo ! i = int (nat (I coo ! i))" by simp
  then show "\<exists>q<nat (N coo). I coo ! i = int q" by blast
qed

lemma row_count_triplets:
  assumes "wf_coo coo"
  shows "row_count (I coo) r = int (length (row_of (triplets coo) r))"
proof -
  from assms have "I coo = map fst (triplets coo)"
    by (simp add: wf_coo_def triplets_def)
  then have "filter (\<lambda>x. x = r) (I coo) = map fst (filter (\<lambda>t. fst t = r) (triplets coo))"
    by (simp only: filter_map comp_def)
  then show ?thesis by (simp add: row_count_def row_of_def)
qed

lemma wf_coo_nzPerRow:
  assumes "wf_coo coo"
  shows "length (nzPerRow coo) = nat (N coo)"
    and "r < nat (N coo) \<Longrightarrow> nzPerRow coo ! r = int (length (row_of (triplets coo) (int r)))"
  using assms row_count_triplets [OF assms] by (simp_all add: wf_coo_def)



subsection \<open>The row pointers\<close>

lemma awrite_Suc [simp]:
  "awrite a (1 + int k) v = (if Suc k < length a then Some (a[Suc k := Some v]) else None)"
  "awrite a (int k + 1) v = (if Suc k < length a then Some (a[Suc k := Some v]) else None)"
  using awrite_int [of a "Suc k" v] by (simp_all add: add.commute)






subsection \<open>The CRS conversion\<close>



subsection \<open>Filling the ELL arrays\<close>

lemma max_nz_empty [simp]: "max_nz npr lo lo = 0"
  by (simp add: max_nz_def)

lemma max_nz_Suc:
  assumes "lo \<le> hi" "hi < length npr"
  shows "max_nz npr lo (Suc hi) = max (max_nz npr lo hi) (npr ! hi)"
proof -
  from assms have "take (Suc hi - lo) (drop lo npr) = take (hi - lo) (drop lo npr) @ [npr ! hi]"
    by (simp add: Suc_diff_le take_Suc_conv_app_nth)
  then have "insert 0 (set (take (Suc hi - lo) (drop lo npr)))
      = insert (npr ! hi) (insert 0 (set (take (hi - lo) (drop lo npr))))"
    by auto
  then show ?thesis
    by (simp add: max_nz_def max.commute del: insert_commute)
qed

lemma max_nz_ge0: "0 \<le> max_nz npr lo hi"
  by (simp add: max_nz_def)

lemma max_nz_ge:
  assumes "lo \<le> r" "r < hi" "hi \<le> length npr"
  shows "npr ! r \<le> max_nz npr lo hi"
proof -
  have "npr ! r = take (hi - lo) (drop lo npr) ! (r - lo)" using assms by simp
  moreover have "r - lo < length (take (hi - lo) (drop lo npr))" using assms by simp
  ultimately have "npr ! r \<in> set (take (hi - lo) (drop lo npr))"
    by (metis nth_mem)
  then show ?thesis by (simp add: max_nz_def)
qed

lemma getMaxNz_correct:
  assumes "lo \<le> hi" "hi \<le> length (nzPerRow coo)"
  shows "getMaxNz coo (int lo) (int hi) = Some (max_nz (nzPerRow coo) lo hi)"
proof -
  let ?body = "\<lambda>i maxNz. do { x \<leftarrow> lread (nzPerRow coo) i; Some (if x > maxNz then x else maxNz) }"
  define P where "P = (\<lambda>(j::int) (mx::int). int lo \<le> j \<and> mx = max_nz (nzPerRow coo) lo (nat j))"
  have "\<exists>t. for_loop (int lo) (int hi) ?body 0 = Some t \<and> P (int hi) t"
  proof (rule for_loop_rule [where P = P])
    show "int lo \<le> int hi" using assms by simp
    show "P (int lo) 0" by (simp add: P_def)
    fix j t assume j: "int lo \<le> j" "j < int hi" and Pj: "P j t"
    define k where "k = nat j"
    with j have jk: "j = int k" and k: "lo \<le> k" "k < hi" and nj: "nat j = k" "nat (j + 1) = Suc k"
      by auto
    from Pj have t: "t = max_nz (nzPerRow coo) lo k" by (simp add: P_def nj)
    from k assms have kl: "k < length (nzPerRow coo)" by simp
    have "?body j t = Some (max t (nzPerRow coo ! k))"
      unfolding jk using kl by (simp add: max_def)
    moreover have "P (j + 1) (max t (nzPerRow coo ! k))"
      using max_nz_Suc [OF k(1) kl] t j by (simp add: P_def nj)
    ultimately show "\<exists>t'. ?body j t = Some t' \<and> P (j + 1) t'" by blast
  qed
  then show ?thesis by (simp add: getMaxNz_def P_def)
qed

lemma ell_array_length [simp]: "length (ell_array g ts lo len w) = w * len"
  by (simp add: ell_array_def)

lemma ell_array_init: "ell_array g (take 0 ts) lo len w = replicate (w * len) None"
  by (simp add: ell_array_def ell_cell_def row_of_def list_eq_iff_nth_eq)

lemma ell_array_step_out:
  assumes "i < length ts" "fst (ts ! i) = int q" "\<not> (lo \<le> q \<and> q < lo + len)"
  shows "ell_array g (take (Suc i) ts) lo len w = ell_array g (take i ts) lo len w"
proof -
  have "row_of (take (Suc i) ts) (int (lo + p mod len)) = row_of (take i ts) (int (lo + p mod len))"
    if "p < w * len" for p
  proof -
    from that have "0 < len" by (cases len) auto
    then have "p mod len < len" by simp
    with assms have "int (lo + p mod len) \<noteq> int q" by auto
    with assms show ?thesis by (simp add: row_of_take_Suc)
  qed
  then show ?thesis by (simp add: ell_array_def ell_cell_def)
qed

lemma ell_slot_bound:
  assumes "(cur::nat) < w" "(q::nat) < lo + len" "lo \<le> q"
  shows "cur * len + (q - lo) < w * len"
proof -
  from assms have "Suc cur \<le> w" by simp
  then have "Suc cur * len \<le> w * len" by (rule mult_le_mono1)
  moreover from assms have "cur * len + (q - lo) < Suc cur * len" by simp
  ultimately show ?thesis by simp
qed

lemma ell_array_step_in:
  assumes i: "i < length ts" and q: "fst (ts ! i) = int q" "lo \<le> q" "q < lo + len"
    and w: "length (row_of (take i ts) (int q)) < w"
  shows "ell_array g (take (Suc i) ts) lo len w
    = (ell_array g (take i ts) lo len w)
        [length (row_of (take i ts) (int q)) * len + (q - lo) := Some (g (snd (ts ! i)))]"
proof (rule nth_equalityI)
  show "length (ell_array g (take (Suc i) ts) lo len w)
      = length ((ell_array g (take i ts) lo len w)
        [length (row_of (take i ts) (int q)) * len + (q - lo) := Some (g (snd (ts ! i)))])"
    by simp
next
  fix p assume "p < length (ell_array g (take (Suc i) ts) lo len w)"
  then have p: "p < w * len" by simp
  let ?cur = "length (row_of (take i ts) (int q))"
  from q have ql: "q - lo < len" by simp
  show "ell_array g (take (Suc i) ts) lo len w ! p
      = (ell_array g (take i ts) lo len w)[?cur * len + (q - lo) := Some (g (snd (ts ! i)))] ! p"
  proof (cases "p = ?cur * len + (q - lo)")
    case True
    with ql have "p div len = ?cur" "p mod len = q - lo" by simp_all
    with True p q i show ?thesis
      by (simp add: ell_array_def ell_cell_def row_of_take_Suc)
  next
    case False
    have ne: "\<not> (p div len = ?cur \<and> lo + p mod len = q)"
    proof
      assume "p div len = ?cur \<and> lo + p mod len = q"
      then have "p = ?cur * len + (q - lo)"
        using div_mult_mod_eq [of p len] by auto
      with False show False by simp
    qed
    have "ell_cell (take (Suc i) ts) (p div len) (int (lo + p mod len))
        = ell_cell (take i ts) (p div len) (int (lo + p mod len))"
    proof (cases "lo + p mod len = q")
      case True
      with ne have "p div len \<noteq> ?cur" by simp
      with True i q show ?thesis
        by (auto simp: ell_cell_def row_of_take_Suc nth_append)
    next
      case False
      then have "int (lo + p mod len) \<noteq> int q" by simp
      with i q show ?thesis by (simp add: ell_cell_def row_of_take_Suc)
    qed
    with False p show ?thesis by (simp add: ell_array_def)
  qed
qed

lemma offs_count_step:
  assumes "offs_count (take i ts) n offs" "i < length ts" "fst (ts ! i) = int q" "q < n"
  shows "offs_count (take (Suc i) ts) n (offs[q := Some (int (length (row_of (take i ts) (int q))) + 1)])"
  using assms by (auto simp: offs_count_def row_of_take_Suc nth_list_update)

subsection \<open>The ELL conversion\<close>

lemma wf_coo_row_le_max:
  assumes wf: "wf_coo coo" and q: "lo \<le> q" "q < hi" "hi \<le> nat (N coo)"
  shows "length (row_of (triplets coo) (int q)) \<le> nat (max_nz (nzPerRow coo) lo hi)"
proof -
  from wf_coo_nzPerRow [OF wf] q
  have "length (nzPerRow coo) = nat (N coo)"
    "nzPerRow coo ! q = int (length (row_of (triplets coo) (int q)))" by auto
  with max_nz_ge [OF q(1,2), of "nzPerRow coo"] q show ?thesis by simp
qed

lemma ell_fill_loop:
  assumes wf: "wf_coo coo"
  defines "w \<equiv> nat (max_nz (nzPerRow coo) 0 (nat (N coo)))"
  assumes fit: "int (w * nat (N coo)) < 2 ^ 31"
  shows "\<exists>offs'. for_loop 0 (nz coo) (ell_fill_body coo)
            (replicate (nat (N coo)) (Some 0),
             replicate (w * nat (N coo)) None, replicate (w * nat (N coo)) None)
          = Some (offs', ell_array fst (triplets coo) 0 (nat (N coo)) w,
                         ell_array snd (triplets coo) 0 (nat (N coo)) w)"
proof -
  let ?n = "nat (N coo)" and ?m = "nat (nz coo)" and ?ts = "triplets coo"
  define P where "P = (\<lambda>(j::int) (s :: int array \<times> int array \<times> 'a array).
     (case s of (offs, idx, dat) \<Rightarrow> 0 \<le> j \<and>
        offs_count (take (nat j) ?ts) ?n offs \<and>
        idx = ell_array fst (take (nat j) ?ts) 0 ?n w \<and>
        dat = ell_array snd (take (nat j) ?ts) 0 ?n w))"
  from wf have m0: "0 \<le> nz coo" and n0: "0 \<le> N coo" by (simp_all add: wf_coo_def)
  note tr = wf_coo_triplets [OF wf]
  have init: "P 0 (replicate ?n (Some 0), replicate (w * ?n) None, replicate (w * ?n) None)"
    by (simp add: P_def ell_array_init [of _ ?ts, simplified] offs_count_def row_of_def)
  have step: "\<exists>t'. ell_fill_body coo j t = Some t' \<and> P (j + 1) t'"
    if j: "0 \<le> j" "j < nz coo" and Pj: "P j t" for j t
  proof -
    obtain offs idx dat where t: "t = (offs, idx, dat)" by (cases t)
    define k where "k = nat j"
    with j have jk: "j = int k" and k: "k < ?m" and nj: "nat j = k" "nat (j + 1) = Suc k" by auto
    from Pj have o: "offs_count (take k ?ts) ?n offs"
      and fi: "idx = ell_array fst (take k ?ts) 0 ?n w" and fv: "dat = ell_array snd (take k ?ts) 0 ?n w"
      by (simp_all add: P_def t nj)
    from tr(3) [OF k] obtain q where q: "q < ?n" "I coo ! k = int q" by auto
    from k tr have kt: "k < length ?ts" and tk: "fst (?ts ! k) = int q"
      "snd (?ts ! k) = (J coo ! k, V coo ! k)" using q by simp_all
    define cur where "cur = length (row_of (take k ?ts) (int q))"
    define slot where "slot = cur * ?n + (q - 0)"
    from o q have oq: "offs ! q = Some (int cur)" and lo: "length offs = ?n"
      by (simp_all add: offs_count_def cur_def)
    have "cur < length (row_of ?ts (int q))"
      unfolding cur_def using kt tk by (intro row_of_take_less) auto
    also have "\<dots> \<le> w" unfolding w_def using q by (intro wf_coo_row_le_max [OF wf]) auto
    finally have cw: "cur < w" .
    from ell_slot_bound [OF cw, of q 0 ?n] q have sl: "slot < w * ?n" by (simp add: slot_def)
    have "int cur * N coo + int q = int slot" using n0 by (simp add: slot_def)
    moreover from sl fit have "int slot < 2 ^ 31" by linarith
    ultimately have slot: "int32 (int cur * N coo + int q) = int slot"
      by (simp add: int32_id)
    let ?offs = "offs[q := Some (int cur + 1)]"
    let ?idx = "idx[slot := Some (J coo ! k)]"
    let ?dat = "dat[slot := Some (V coo ! k)]"
    from wf k have lens: "k < length (I coo)" "k < length (J coo)" "k < length (V coo)"
      by (simp_all add: wf_coo_def)
    have "ell_fill_body coo j t = Some (?offs, ?idx, ?dat)"
      unfolding t ell_fill_body.simps jk using lens q lo oq sl fi fv by (simp add: slot)
    moreover have "P (j + 1) (?offs, ?idx, ?dat)"
      using offs_count_step [OF o kt tk(1) q(1)]
        ell_array_step_in [OF kt tk(1) _ _ cw [unfolded cur_def], of 0 ?n fst]
        ell_array_step_in [OF kt tk(1) _ _ cw [unfolded cur_def], of 0 ?n snd]
        j q tk(2) fi fv
      by (simp add: P_def nj cur_def slot_def)
    ultimately show ?thesis by blast
  qed
  have "\<exists>t. for_loop 0 (nz coo) (ell_fill_body coo)
            (replicate ?n (Some 0), replicate (w * ?n) None, replicate (w * ?n) None) = Some t
          \<and> P (nz coo) t"
  proof (rule for_loop_rule [where P = P])
    show "0 \<le> nz coo" by (rule m0)
    show "P 0 (replicate ?n (Some 0), replicate (w * ?n) None, replicate (w * ?n) None)" by (rule init)
    show "\<And>j t. 0 \<le> j \<Longrightarrow> j < nz coo \<Longrightarrow> P j t \<Longrightarrow> \<exists>t'. ell_fill_body coo j t = Some t' \<and> P (j + 1) t'"
      by (rule step)
  qed
  then obtain offs' idx dat where run: "for_loop 0 (nz coo) (ell_fill_body coo)
            (replicate ?n (Some 0), replicate (w * ?n) None, replicate (w * ?n) None)
            = Some (offs', idx, dat)"
    and fin: "P (nz coo) (offs', idx, dat)" by auto
  from fin tr(1) run show ?thesis by (simp add: P_def)
qed

lemma DataMatrixELL_correct:
  assumes wf: "wf_coo coo"
    and fit: "N coo * max_nz (nzPerRow coo) 0 (nat (N coo)) < 2 ^ 31"
  shows "DataMatrixELL coo
    = Some \<lparr>N = N coo, nz = nz coo,
            matrixData = ell_of (triplets coo) (nzPerRow coo) 0 (nat (N coo))\<rparr>"
proof -
  let ?n = "nat (N coo)"
  let ?mx = "max_nz (nzPerRow coo) 0 ?n"
  from wf have n0: "0 \<le> N coo" "0 \<le> nz coo" by (simp_all add: wf_coo_def)
  from wf_coo_nzPerRow [OF wf] have npr: "length (nzPerRow coo) = ?n" by simp
  have mx: "getMaxNz_all coo = Some ?mx"
    using getMaxNz_correct [of 0 ?n coo] npr n0 by (simp add: getMaxNz_all_def)
  have sz: "nat (N coo * ?mx) = nat ?mx * ?n"
    using n0 max_nz_ge0 [of "nzPerRow coo" 0 ?n] by (simp add: nat_mult_distrib mult.commute)
  have e0: "0 \<le> N coo * ?mx" using n0 max_nz_ge0 [of "nzPerRow coo" 0 ?n] by simp
  from e0 fit have i32: "int32 (N coo * ?mx) = N coo * ?mx" by (simp add: int32_id)
  have "int (nat ?mx * ?n) = N coo * ?mx"
    using n0 max_nz_ge0 [of "nzPerRow coo" 0 ?n] by simp
  with fit have "int (nat ?mx * ?n) < 2 ^ 31" by simp
  from ell_fill_loop [OF wf this] obtain offs' where
    fill: "for_loop 0 (nz coo) (ell_fill_body coo)
            (replicate ?n (Some 0), replicate (nat ?mx * ?n) None, replicate (nat ?mx * ?n) None)
          = Some (offs', ell_array fst (triplets coo) 0 ?n (nat ?mx),
                         ell_array snd (triplets coo) 0 ?n (nat ?mx))"
    by blast
  show ?thesis
    unfolding DataMatrixELL_def allocateLength_def allocateIndexAndData_def new_array_def
      memcpy_def memset0_def
    using n0 npr mx sz e0 fill i32 by (simp add: ell_of_def mult.commute)
qed

lemma DataMatrixELL_negative:
  assumes wf: "wf_coo coo"
    and neg: "int32 (N coo * max_nz (nzPerRow coo) 0 (nat (N coo))) < 0"
  shows "DataMatrixELL coo = None"
proof -
  let ?n = "nat (N coo)"
  from wf have n0: "0 \<le> N coo" by (simp add: wf_coo_def)
  from wf_coo_nzPerRow [OF wf] have npr: "length (nzPerRow coo) = ?n" by simp
  have mx: "getMaxNz_all coo = Some (max_nz (nzPerRow coo) 0 ?n)"
    using getMaxNz_correct [of 0 ?n coo] npr n0 by (simp add: getMaxNz_all_def)
  show ?thesis
    unfolding DataMatrixELL_def allocateLength_def allocateIndexAndData_def new_array_def
      memcpy_def memset0_def
    using n0 npr mx neg by simp
qed

subsection \<open>Rows of the converted matrices\<close>

lemma aread_Suc [simp]:
  "aread a (1 + int k) = (if Suc k < length a then a ! Suc k else None)"
  "aread a (int k + 1) = (if Suc k < length a then a ! Suc k else None)"
  using aread_int [of a "Suc k"] by (simp_all add: add.commute)

lemma crs_of_ptr_length [simp]: "length (ptr (crs_of ts lo len)) = Suc len"
  by (simp add: crs_of_def)



lemma ell_array_nth:
  assumes "k < w" "r < len"
  shows "k * len + r < w * len"
    and "ell_array g ts lo len w ! (k * len + r) = map_option g (ell_cell ts k (int (lo + r)))"
proof -
  from ell_slot_bound [OF assms(1), of "lo + r" lo len] assms(2)
  show b: "k * len + r < w * len" by simp
  from assms(2) have "(k * len + r) div len = k" "(k * len + r) mod len = r" by simp_all
  with b show "ell_array g ts lo len w ! (k * len + r) = map_option g (ell_cell ts k (int (lo + r)))"
    by (simp add: ell_array_def del: of_nat_add)
qed

lemma ell_of_slot:
  assumes r: "r < len" "lo + len \<le> length npr"
    and npr: "npr ! (lo + r) = int (length (row_of ts (int (lo + r))))"
    and k: "k < length (row_of ts (int (lo + r)))"
  shows "aread (indexELL (ell_of ts npr lo len)) (int k * int len + int r)
           = Some (fst (row_of ts (int (lo + r)) ! k))"
    and "aread (dataELL (ell_of ts npr lo len)) (int k * int len + int r)
           = Some (snd (row_of ts (int (lo + r)) ! k))"
proof -
  let ?w = "nat (max_nz npr lo (lo + len))"
  have "npr ! (lo + r) \<le> max_nz npr lo (lo + len)"
    using r by (intro max_nz_ge) auto
  with npr k have kw: "k < ?w" by simp
  have eq: "int k * int len + int r = int (k * len + r)" by simp
  from ell_array_nth(1) [OF kw r(1)] ell_array_nth(2) [OF kw r(1), of fst ts lo]
    ell_array_nth(2) [OF kw r(1), of snd ts lo] k
  show "aread (indexELL (ell_of ts npr lo len)) (int k * int len + int r)
           = Some (fst (row_of ts (int (lo + r)) ! k))"
    and "aread (dataELL (ell_of ts npr lo len)) (int k * int len + int r)
           = Some (snd (row_of ts (int (lo + r)) ! k))"
    unfolding eq aread_int by (simp_all add: ell_of_def ell_cell_def del: of_nat_add)
qed

lemma ell_of_row:
  assumes r: "r < len" "lo + len \<le> length npr"
    and npr: "npr ! (lo + r) = int (length (row_of ts (int (lo + r))))"
  shows "ell_row (int len) (ell_of ts npr lo len) (int r) = map cells (row_of ts (int (lo + r)))"
proof -
  let ?row = "row_of ts (int (lo + r))"
  have l: "aread (lengthELL (ell_of ts npr lo len)) (int r) = Some (int (length ?row))"
    using r npr by (simp add: ell_of_def del: of_nat_add)
  have "map (\<lambda>k. (aread (indexELL (ell_of ts npr lo len)) (int k * int len + int r),
                   aread (dataELL (ell_of ts npr lo len)) (int k * int len + int r)))
          [0..<length ?row] = map cells ?row"
  proof (rule nth_equalityI)
    show "length (map (\<lambda>k. (aread (indexELL (ell_of ts npr lo len)) (int k * int len + int r),
                   aread (dataELL (ell_of ts npr lo len)) (int k * int len + int r)))
          [0..<length ?row]) = length (map cells ?row)" by simp
  next
    fix k assume "k < length (map (\<lambda>k. (aread (indexELL (ell_of ts npr lo len)) (int k * int len + int r),
                   aread (dataELL (ell_of ts npr lo len)) (int k * int len + int r)))
          [0..<length ?row])"
    then have k: "k < length ?row" by simp
    from ell_of_slot [OF r npr k] k
    show "map (\<lambda>k. (aread (indexELL (ell_of ts npr lo len)) (int k * int len + int r),
                   aread (dataELL (ell_of ts npr lo len)) (int k * int len + int r)))
          [0..<length ?row] ! k = map cells ?row ! k"
      by (simp add: cells_def del: of_nat_add)
  qed
  then show ?thesis
    unfolding ell_row_def l by simp
qed

lemma max_nz_all:
  assumes "wf_coo coo"
  shows "max_nz (nzPerRow coo) 0 (nat (N coo)) = maxRowNz coo"
  using wf_coo_nzPerRow(1) [OF assms] by (simp add: max_nz_def maxRowNz_def)

lemma row_count_replicate: "row_count (replicate m x) r = (if r = x then int m else 0)"
  by (simp add: row_count_def)

lemma long_row_wf: "wf_coo long_row"
proof -
  have "map (\<lambda>r. row_count (replicate 32768 (0::int)) (int r)) [0..<65536]
      = 32768 # replicate 65535 0"
    by (auto simp: list_eq_iff_nth_eq nth_Cons' row_count_replicate)
  then show ?thesis
    by (simp add: wf_coo_def long_row_def list_all_iff)
qed

lemma long_row_max: "maxRowNz long_row = 32768"
  by (simp add: maxRowNz_def long_row_def)

lemma long_row_ell: "DataMatrixELL long_row = None"
proof (rule DataMatrixELL_negative [OF long_row_wf])
  have "N long_row * maxRowNz long_row = 2147483648"
    by (simp add: long_row_max) (simp add: long_row_def)
  then show "int32 (N long_row * max_nz (nzPerRow long_row) 0 (nat (N long_row))) < 0"
    by (simp add: max_nz_all [OF long_row_wf] int32_def)
qed




text \<open>
  Claim C5, as the specification states it: for every triplet matrix the ELL conversion
  allocates column-index and value storage of size \<open>N * maxRowNz\<close>. It fails on
  \<open>long_row\<close>, where \<open>N * maxRowNz\<close> is \<open>65536 * 32768 = 2^31\<close>: the product of the two
  \<open>int\<close> values is \<open>-2^31\<close>, an array of that size cannot be allocated, and the
  constructor does not return.
\<close>

theorem ell_size_overflows:
  "wf_coo long_row \<and> N long_row = 65536 \<and> maxRowNz long_row = 32768 \<and>
   int32 (N long_row * maxRowNz long_row) = - 2147483648 \<and>
   (allocateIndexAndData (- 2147483648) :: (int array \<times> int array) option) = None \<and>
   DataMatrixELL long_row = None"
proof -
  have "N long_row = 65536" by (simp add: long_row_def)
  moreover from this have "int32 (N long_row * maxRowNz long_row) = - 2147483648"
    by (simp add: long_row_max int32_def)
  moreover have "(allocateIndexAndData (- 2147483648) :: (int array \<times> int array) option) = None"
    by (simp add: allocateIndexAndData_def new_array_def)
  ultimately show ?thesis
    using long_row_wf long_row_max long_row_ell by simp
qed

text \<open>
  Claim C5, amended. For every triplet matrix for which \<open>N * maxRowNz\<close> is less than
  \<open>2^31\<close>, where \<open>maxRowNz\<close> is the largest per-row count, the ELL conversion returns
  a matrix; its per-row count array has \<open>N\<close> cells holding the triplet matrix's per-row
  counts; the column-index and value arrays have \<open>N * maxRowNz\<close> cells; and the \<open>k\<close>-th
  entry of row \<open>r\<close>, in the order of the triplet input, is in cell \<open>k * N + r\<close> of both
  arrays.
\<close>

theorem ell_layout:
  assumes "wf_coo coo" and "N coo * maxRowNz coo < 2 ^ 31"
  shows "\<exists>ell. DataMatrixELL coo = Some ell \<and>
    lengthELL (matrixData ell) = map Some (nzPerRow coo) \<and>
    length (lengthELL (matrixData ell)) = nat (N coo) \<and>
    elements (matrixData ell) = N coo * maxRowNz coo \<and>
    length (indexELL (matrixData ell)) = nat (N coo * maxRowNz coo) \<and>
    length (dataELL (matrixData ell)) = nat (N coo * maxRowNz coo) \<and>
    (\<forall>r k. 0 \<le> r \<and> r < N coo \<and> k < length (row_of (triplets coo) r) \<longrightarrow>
       aread (indexELL (matrixData ell)) (int k * N coo + r) = Some (fst (row_of (triplets coo) r ! k)) \<and>
       aread (dataELL (matrixData ell)) (int k * N coo + r) = Some (snd (row_of (triplets coo) r ! k)))"
proof -
  let ?n = "nat (N coo)" and ?ts = "triplets coo"
  note wf = assms(1)
  from wf have n0: "0 \<le> N coo" by (simp add: wf_coo_def)
  note npr = wf_coo_nzPerRow [OF wf]
  note mx = max_nz_all [OF wf]
  from assms(2) have fit: "N coo * max_nz (nzPerRow coo) 0 ?n < 2 ^ 31" by (simp add: mx)
  have m0: "0 \<le> maxRowNz coo" by (simp add: maxRowNz_def)
  have slots: "aread (indexELL (ell_of ?ts (nzPerRow coo) 0 ?n)) (int k * N coo + r)
          = Some (fst (row_of ?ts r ! k)) \<and>
        aread (dataELL (ell_of ?ts (nzPerRow coo) 0 ?n)) (int k * N coo + r)
          = Some (snd (row_of ?ts r ! k))"
    if r: "0 \<le> r" "r < N coo" and k: "k < length (row_of ?ts r)" for r k
  proof -
    define q where "q = nat r"
    with r have rq: "r = int q" and q: "q < ?n" by auto
    from ell_of_slot [OF q, of 0 "nzPerRow coo" ?ts k] npr q n0 k
    show ?thesis by (simp add: rq)
  qed
  have len: "take ?n (nzPerRow coo) = nzPerRow coo" using npr(1) by simp
  show ?thesis
    unfolding DataMatrixELL_correct [OF wf fit]
    using slots n0 m0 npr(1) len
    by (simp add: ell_of_def mx nat_mult_distrib mult.commute)
qed



theorem ell_layout_witness:
  "wf_coo \<lparr>N = 3, nz = 5, I = [2, 0, 1, 0, 2], J = [0, 1, 1, 0, 2], V = [10, 20, 30, 40, 50 :: int],
           nzPerRow = [2, 1, 2]\<rparr> \<and>
   (\<exists>ell. DataMatrixELL \<lparr>N = 3, nz = 5, I = [2, 0, 1, 0, 2], J = [0, 1, 1, 0, 2],
              V = [10, 20, 30, 40, 50 :: int], nzPerRow = [2, 1, 2]\<rparr> = Some ell \<and>
      lengthELL (matrixData ell) = [Some 2, Some 1, Some 2] \<and>
      elements (matrixData ell) = 6 \<and>
      length (indexELL (matrixData ell)) = 6 \<and>
      length (dataELL (matrixData ell)) = 6 \<and>
      aread (indexELL (matrixData ell)) (1 * 3 + 2) = Some 2 \<and>
      aread (dataELL (matrixData ell)) (1 * 3 + 2) = Some 50) \<and>
   N \<lparr>N = 3, nz = 5, I = [2, 0, 1, 0, 2], J = [0, 1, 1, 0, 2], V = [10, 20, 30, 40, 50 :: int],
           nzPerRow = [2, 1, 2]\<rparr> *
     maxRowNz \<lparr>N = 3, nz = 5, I = [2, 0, 1, 0, 2], J = [0, 1, 1, 0, 2], V = [10, 20, 30, 40, 50 :: int],
           nzPerRow = [2, 1, 2]\<rparr> = 6"
proof -
  let ?coo = "\<lparr>N = 3, nz = 5, I = [2, 0, 1, 0, 2], J = [0, 1, 1, 0, 2], V = [10, 20, 30, 40, 50 :: int],
           nzPerRow = [2, 1, 2]\<rparr>"
  have wf: "wf_coo ?coo"
    by (simp add: wf_coo_def row_count_def upt_rec)
  have row: "row_of (triplets ?coo) 2 = [(0, 10), (2, 50)]"
    by (simp add: triplets_def row_of_def)
  have mx: "maxRowNz ?coo = 2" by (simp add: maxRowNz_def)
  have fit: "N ?coo * maxRowNz ?coo < 2 ^ 31" by (simp add: mx)
  from ell_layout [OF wf fit] obtain ell where ell: "DataMatrixELL ?coo = Some ell"
    "lengthELL (matrixData ell) = map Some (nzPerRow ?coo)"
    "elements (matrixData ell) = N ?coo * maxRowNz ?coo"
    "length (indexELL (matrixData ell)) = nat (N ?coo * maxRowNz ?coo)"
    "length (dataELL (matrixData ell)) = nat (N ?coo * maxRowNz ?coo)"
    and s: "\<forall>r k. 0 \<le> r \<and> r < N ?coo \<and> k < length (row_of (triplets ?coo) r) \<longrightarrow>
       aread (indexELL (matrixData ell)) (int k * N ?coo + r) = Some (fst (row_of (triplets ?coo) r ! k)) \<and>
       aread (dataELL (matrixData ell)) (int k * N ?coo + r) = Some (snd (row_of (triplets ?coo) r ! k))"
    by blast
  from s [rule_format, of 2 1] row
  have "aread (indexELL (matrixData ell)) (1 * 3 + 2) = Some 2 \<and>
        aread (dataELL (matrixData ell)) (1 * 3 + 2) = Some 50"
    by simp
  with wf ell mx show ?thesis by simp
qed

subsection \<open>Work distributions\<close>

lemma wd_valid_chunk:
  assumes "wd_valid wd n" "c < nat (numberOfChunks wd)"
  shows "offsets wd ! c = int (chunk_lo wd c)" "lengths wd ! c = int (chunk_len wd c)"
    "chunk_lo wd c + chunk_len wd c \<le> nat n"
proof -
  from assms have r: "0 \<le> offsets wd ! c" "0 \<le> lengths wd ! c" "offsets wd ! c + lengths wd ! c \<le> n"
    by (simp_all add: wd_valid_def list_all_iff)
  from r show "offsets wd ! c = int (chunk_lo wd c)" by (simp add: chunk_lo_def)
  from r show "lengths wd ! c = int (chunk_len wd c)" by (simp add: chunk_len_def)
  from r show "chunk_lo wd c + chunk_len wd c \<le> nat n" by (simp add: chunk_lo_def chunk_len_def)
qed

lemma wd_valid_disjoint:
  assumes wd: "wd_valid wd n" and c: "c < nat (numberOfChunks wd)" "c' < nat (numberOfChunks wd)" "c \<noteq> c'"
    and r: "chunk_lo wd c \<le> r" "r < chunk_lo wd c + chunk_len wd c"
  shows "\<not> (chunk_lo wd c' \<le> r \<and> r < chunk_lo wd c' + chunk_len wd c')"
proof
  assume r': "chunk_lo wd c' \<le> r \<and> r < chunk_lo wd c' + chunk_len wd c'"
  let ?in = "\<lambda>c. offsets wd ! c \<le> int r \<and> int r < offsets wd ! c + lengths wd ! c"
  let ?xs = "filter ?in [0..<nat (numberOfChunks wd)]"
  from wd_valid_chunk [OF wd c(1)] r have rn: "r < nat n" and ic: "?in c" by simp_all
  from wd_valid_chunk [OF wd c(2)] r' have ic': "?in c'" by simp
  from wd rn have "length ?xs = 1" by (simp add: wd_valid_def list_all_iff)
  then obtain x where x: "?xs = [x]" by (cases ?xs) auto
  from c ic ic' have "c \<in> set ?xs" "c' \<in> set ?xs" by simp_all
  with x have "c = x" "c' = x" by simp_all
  with c(3) show False by simp
qed

lemma chunkMaxNz_max_nz:
  "max_nz (nzPerRow coo) (chunk_lo wd c) (chunk_lo wd c + chunk_len wd c) = chunkMaxNz coo wd c"
  by (simp add: max_nz_def chunkMaxNz_def chunk_lo_def chunk_len_def)

lemma findChunk_correctD:
  assumes "findChunk_correct findChunk wd n" "wd_valid wd n" "q < nat n"
  shows "\<exists>c<nat (numberOfChunks wd). findChunk (int q) = int c \<and>
           chunk_lo wd c \<le> q \<and> q < chunk_lo wd c + chunk_len wd c"
proof -
  let ?c = "findChunk (int q)"
  from assms(1,3) have c: "0 \<le> ?c" "?c < numberOfChunks wd"
    "offsets wd ! nat ?c \<le> int q" "int q < offsets wd ! nat ?c + lengths wd ! nat ?c"
    by (simp_all add: findChunk_correct_def list_all_length)
  then have n: "nat ?c < nat (numberOfChunks wd)" "?c = int (nat ?c)" by simp_all
  from wd_valid_chunk(1,2) [OF assms(2) n(1)] c(3,4)
  have "chunk_lo wd (nat ?c) \<le> q \<and> q < chunk_lo wd (nat ?c) + chunk_len wd (nat ?c)" by simp
  with n show ?thesis by blast
qed

subsection \<open>The chunked ELL construction\<close>

lemma ell_record_eq:
  "(d :: 'v MatrixDataELL)\<lparr>elements := a, lengthELL := b, indexELL := c, dataELL := e\<rparr>
     = \<lparr>elements = a, lengthELL = b, indexELL = c, dataELL = e\<rparr>"
  by (cases d) simp

lemma ell_array_Nil: "ell_array g [] lo len w = replicate (w * len) None"
  using ell_array_init [of g "[]" lo len w] by simp

lemma ell_of_take_all: "length ts \<le> k \<Longrightarrow> ell_of (take k ts) npr lo len = ell_of ts npr lo len"
  by simp

lemma ell_of_step_out:
  assumes "i < length ts" "fst (ts ! i) = int q" "\<not> (lo \<le> q \<and> q < lo + len)"
  shows "ell_of (take (Suc i) ts) npr lo len = ell_of (take i ts) npr lo len"
  using ell_array_step_out [OF assms, of fst] ell_array_step_out [OF assms, of snd]
  by (simp add: ell_of_def)


lemma split_ell_alloc_loop_any:
  assumes wf: "wf_coo coo" and wd: "wd_valid wd (N coo)"
    and pos: "\<And>c. c < nat (numberOfChunks wd) \<Longrightarrow> 0 \<le> int32 (chunkMaxNz coo wd c * lengths wd ! c)"
  shows "for_loop 0 (numberOfChunks wd) (split_ell_alloc_chunk coo wd)
            (replicate (nat (numberOfChunks wd)) emptyELL)
          = Some (map (\<lambda>c. ell_alloc (nzPerRow coo) (chunk_lo wd c) (chunk_len wd c))
                    [0..<nat (numberOfChunks wd)])"
proof -
  let ?nch = "nat (numberOfChunks wd)" and ?npr = "nzPerRow coo"
  define P where "P = (\<lambda>(j::int) (dat :: 'a MatrixDataELL list). 0 \<le> j \<and> length dat = ?nch \<and>
     (\<forall>c<nat j. dat ! c = ell_alloc ?npr (chunk_lo wd c) (chunk_len wd c)))"
  from wd have c0: "0 \<le> numberOfChunks wd" and lens: "length (offsets wd) = ?nch" "length (lengths wd) = ?nch"
    by (simp_all add: wd_valid_def)
  from wf_coo_nzPerRow [OF wf] have npr: "length ?npr = nat (N coo)" by simp
  have step: "\<exists>t'. split_ell_alloc_chunk coo wd j t = Some t' \<and> P (j + 1) t'"
    if j: "0 \<le> j" "j < numberOfChunks wd" and Pj: "P j t" for j t
  proof -
    define c where "c = nat j"
    with j have jc: "j = int c" and c: "c < ?nch" and nj: "nat j = c" "nat (j + 1) = Suc c" by auto
    define lo len where "lo = chunk_lo wd c" and "len = chunk_len wd c"
    note ch = wd_valid_chunk [OF wd c, folded lo_def len_def]
    from Pj have lt: "length t = ?nch"
      and old: "\<forall>c'<c. t ! c' = ell_alloc ?npr (chunk_lo wd c') (chunk_len wd c')"
      by (simp_all add: P_def nj)
    define mx where "mx = max_nz ?npr lo (lo + len)"
    have mx: "getMaxNz coo (int lo) (int lo + int len) = Some mx"
      using getMaxNz_correct [of lo "lo + len" coo] ch(3) npr by (simp add: mx_def)
    from pos [OF c] have e0: "0 \<le> int32 (mx * int len)"
      by (simp add: mx_def lo_def len_def chunkMaxNz_max_nz ch(2) [unfolded len_def])
    have "lo + len \<le> length ?npr" using ch(3) npr by simp
    then have "int lo + int len \<le> int (length ?npr)" by linarith
    then have cp: "memcpy (replicate len None) ?npr (int lo) (int len) = Some (map Some (take len (drop lo ?npr)))"
      by (simp add: memcpy_def)
    have new: "\<lparr>elements = int32 (mx * int len), lengthELL = map Some (take len (drop lo ?npr)),
               indexELL = replicate (nat (int32 (mx * int len))) None,
               dataELL = replicate (nat (int32 (mx * int len))) None\<rparr>
             = ell_alloc ?npr lo len"
      by (simp add: ell_alloc_def ell_elems_def mx_def)
    have "split_ell_alloc_chunk coo wd j t = Some (t[c := ell_alloc ?npr lo len])"
      unfolding split_ell_alloc_chunk_def jc
      using c lens lt ch(1,2) mx e0 cp
      by (simp add: allocateLength_def allocateIndexAndData_def new_array_def ell_record_eq new)
    moreover have "P (j + 1) (t[c := ell_alloc ?npr lo len])"
      using j lt old c by (auto simp: P_def nj less_Suc_eq nth_list_update lo_def len_def)
    ultimately show ?thesis by blast
  qed
  have "\<exists>t. for_loop 0 (numberOfChunks wd) (split_ell_alloc_chunk coo wd) (replicate ?nch emptyELL) = Some t
          \<and> P (numberOfChunks wd) t"
  proof (rule for_loop_rule [where P = P])
    show "0 \<le> numberOfChunks wd" by (rule c0)
    show "P 0 (replicate ?nch emptyELL)" by (simp add: P_def)
    show "\<And>j t. 0 \<le> j \<Longrightarrow> j < numberOfChunks wd \<Longrightarrow> P j t \<Longrightarrow>
        \<exists>t'. split_ell_alloc_chunk coo wd j t = Some t' \<and> P (j + 1) t'"
      by (rule step)
  qed
  then obtain t where run: "for_loop 0 (numberOfChunks wd) (split_ell_alloc_chunk coo wd)
        (replicate ?nch emptyELL) = Some t" and fin: "P (numberOfChunks wd) t" by blast
  from fin have "t = map (\<lambda>c. ell_alloc ?npr (chunk_lo wd c) (chunk_len wd c)) [0..<?nch]"
    by (simp add: P_def list_eq_iff_nth_eq)
  with run show ?thesis by simp
qed

lemma ell_alloc_fit:
  assumes "max_nz npr lo (lo + len) * int len < 2 ^ 31"
  shows "ell_alloc npr lo len = ell_of [] npr lo len"
proof -
  have "0 \<le> max_nz npr lo (lo + len) * int len" using max_nz_ge0 [of npr lo "lo + len"] by simp
  with assms have "ell_elems npr lo len = max_nz npr lo (lo + len) * int len"
    by (simp add: ell_elems_def int32_nonneg)
  then show ?thesis
    using max_nz_ge0 [of npr lo "lo + len"]
    by (simp add: ell_alloc_def ell_of_def ell_array_Nil nat_mult_distrib)
qed

lemma split_ell_alloc_loop:
  assumes wf: "wf_coo coo" and wd: "wd_valid wd (N coo)"
    and fit: "\<And>c. c < nat (numberOfChunks wd) \<Longrightarrow> chunkMaxNz coo wd c * lengths wd ! c < 2 ^ 31"
  shows "for_loop 0 (numberOfChunks wd) (split_ell_alloc_chunk coo wd)
            (replicate (nat (numberOfChunks wd)) emptyELL)
          = Some (map (\<lambda>c. ell_of [] (nzPerRow coo) (chunk_lo wd c) (chunk_len wd c))
                    [0..<nat (numberOfChunks wd)])"
proof -
  have eq: "ell_alloc (nzPerRow coo) (chunk_lo wd c) (chunk_len wd c)
      = (ell_of [] (nzPerRow coo) (chunk_lo wd c) (chunk_len wd c) :: 'a MatrixDataELL)"
    if c: "c < nat (numberOfChunks wd)" for c
    using fit [OF c] wd_valid_chunk(2) [OF wd c]
    by (intro ell_alloc_fit) (simp add: chunkMaxNz_max_nz)
  have pos: "0 \<le> int32 (chunkMaxNz coo wd c * lengths wd ! c)" if c: "c < nat (numberOfChunks wd)" for c
  proof -
    have "0 \<le> chunkMaxNz coo wd c * lengths wd ! c"
      using wd_valid_chunk(2) [OF wd c] by (simp add: chunkMaxNz_def)
    with fit [OF c] show ?thesis by (simp add: int32_nonneg)
  qed
  have "map (\<lambda>c. ell_alloc (nzPerRow coo) (chunk_lo wd c) (chunk_len wd c)) [0..<nat (numberOfChunks wd)]
      = map (\<lambda>c. ell_of [] (nzPerRow coo) (chunk_lo wd c) (chunk_len wd c) :: 'a MatrixDataELL)
          [0..<nat (numberOfChunks wd)]"
    by (rule map_cong [OF refl]) (simp add: eq)
  with split_ell_alloc_loop_any [OF wf wd pos] show ?thesis by simp
qed

lemma ell_of_step_in:
  assumes i: "i < length ts" and q: "fst (ts ! i) = int q" "lo \<le> q" "q < lo + len"
    and w: "length (row_of (take i ts) (int q)) < nat (max_nz npr lo (lo + len))"
  shows "ell_of (take (Suc i) ts) npr lo len
    = (ell_of (take i ts) npr lo len)
        \<lparr>indexELL := (indexELL (ell_of (take i ts) npr lo len))
           [length (row_of (take i ts) (int q)) * len + (q - lo) := Some (fst (snd (ts ! i)))],
         dataELL := (dataELL (ell_of (take i ts) npr lo len))
           [length (row_of (take i ts) (int q)) * len + (q - lo) := Some (snd (snd (ts ! i)))]\<rparr>"
  using ell_array_step_in [OF i q w, of fst] ell_array_step_in [OF i q w, of snd]
  by (simp add: ell_of_def)

lemma split_ell_fill_loop:
  assumes wf: "wf_coo coo" and wd: "wd_valid wd (N coo)"
    and fc: "findChunk_correct findChunk wd (N coo)"
    and fit: "\<And>c. c < nat (numberOfChunks wd) \<Longrightarrow> chunkMaxNz coo wd c * lengths wd ! c < 2 ^ 31"
  shows "\<exists>offs'. for_loop 0 (nz coo) (split_ell_fill_body findChunk coo wd)
            (replicate (nat (N coo)) (Some 0),
             map (\<lambda>c. ell_of [] (nzPerRow coo) (chunk_lo wd c) (chunk_len wd c))
               [0..<nat (numberOfChunks wd)])
          = Some (offs',
             map (\<lambda>c. ell_of (triplets coo) (nzPerRow coo) (chunk_lo wd c) (chunk_len wd c))
               [0..<nat (numberOfChunks wd)])"
proof -
  let ?n = "nat (N coo)" and ?m = "nat (nz coo)" and ?ts = "triplets coo"
  let ?nch = "nat (numberOfChunks wd)" and ?npr = "nzPerRow coo"
  define P where "P = (\<lambda>(j::int) (s :: int array \<times> 'a MatrixDataELL list).
     (case s of (offs, dat) \<Rightarrow> 0 \<le> j \<and>
        offs_count (take (nat j) ?ts) ?n offs \<and>
        dat = map (\<lambda>c. ell_of (take (nat j) ?ts) ?npr (chunk_lo wd c) (chunk_len wd c)) [0..<?nch]))"
  from wf have m0: "0 \<le> nz coo" and n0: "0 \<le> N coo" by (simp_all add: wf_coo_def)
  from wd have lens: "length (offsets wd) = ?nch" "length (lengths wd) = ?nch"
    by (simp_all add: wd_valid_def)
  note tr = wf_coo_triplets [OF wf]
  have step: "\<exists>t'. split_ell_fill_body findChunk coo wd j t = Some t' \<and> P (j + 1) t'"
    if j: "0 \<le> j" "j < nz coo" and Pj: "P j t" for j t
  proof -
    obtain offs dat where t: "t = (offs, dat)" by (cases t)
    define k where "k = nat j"
    with j have jk: "j = int k" and k: "k < ?m" and nj: "nat j = k" "nat (j + 1) = Suc k" by auto
    from Pj have o: "offs_count (take k ?ts) ?n offs"
      and dat: "dat = map (\<lambda>c. ell_of (take k ?ts) ?npr (chunk_lo wd c) (chunk_len wd c)) [0..<?nch]"
      by (simp_all add: P_def t nj)
    from tr(3) [OF k] obtain q where q: "q < ?n" "I coo ! k = int q" by auto
    from k tr have kt: "k < length ?ts" and tk: "fst (?ts ! k) = int q"
      "snd (?ts ! k) = (J coo ! k, V coo ! k)" using q by simp_all
    from findChunk_correctD [OF fc wd q(1)] obtain c where c: "c < ?nch" "findChunk (int q) = int c"
      and qc: "chunk_lo wd c \<le> q" "q < chunk_lo wd c + chunk_len wd c" by blast
    define lo len where "lo = chunk_lo wd c" and "len = chunk_len wd c"
    note ch = wd_valid_chunk [OF wd c(1), folded lo_def len_def]
    note qc = qc [folded lo_def len_def]
    define cur where "cur = length (row_of (take k ?ts) (int q))"
    define slot where "slot = cur * len + (q - lo)"
    from o q have oq: "offs ! q = Some (int cur)" and lo: "length offs = ?n"
      by (simp_all add: offs_count_def cur_def)
    have "cur < length (row_of ?ts (int q))"
      unfolding cur_def using kt tk by (intro row_of_take_less) auto
    also have "\<dots> \<le> nat (max_nz ?npr lo (lo + len))"
      using qc ch(3) by (intro wf_coo_row_le_max [OF wf]) auto
    finally have cw: "cur < nat (max_nz ?npr lo (lo + len))" .
    from ell_slot_bound [OF cw qc(2,1)] have sl: "slot < nat (max_nz ?npr lo (lo + len)) * len"
      by (simp add: slot_def)
    have "int (nat (max_nz ?npr lo (lo + len)) * len) = max_nz ?npr lo (lo + len) * int len"
      using max_nz_ge0 [of ?npr lo "lo + len"] by simp
    also have "\<dots> < 2 ^ 31"
      using fit [OF c(1)] by (simp add: lo_def len_def chunkMaxNz_max_nz ch(2) [unfolded len_def])
    finally have "int slot < 2 ^ 31" using sl by linarith
    moreover have "int cur * int len + int q - int lo = int slot"
      using qc by (simp add: slot_def of_nat_diff)
    ultimately have slot: "int32 (int cur * int len + int q - int lo) = int slot"
      by (simp add: int32_nonneg)
    let ?d = "ell_of (take k ?ts) ?npr lo len"
    let ?d' = "?d\<lparr>indexELL := (indexELL ?d)[slot := Some (J coo ! k)],
                   dataELL := (dataELL ?d)[slot := Some (V coo ! k)]\<rparr>"
    let ?offs = "offs[q := Some (int cur + 1)]"
    from wf k have rd: "k < length (I coo)" "k < length (J coo)" "k < length (V coo)"
      by (simp_all add: wf_coo_def)
    have dc: "dat ! c = ?d" "length dat = ?nch" using c dat by (simp_all add: lo_def len_def)
    have li: "length (indexELL ?d) = nat (max_nz ?npr lo (lo + len)) * len"
      "length (dataELL ?d) = nat (max_nz ?npr lo (lo + len)) * len"
      by (simp_all add: ell_of_def)
    have "split_ell_fill_body findChunk coo wd j t = Some (?offs, dat[c := ?d'])"
      unfolding t split_ell_fill_body.simps jk
      using rd q lo oq c lens ch(1,2) dc sl li by (simp add: slot Let_def)
    moreover have "dat[c := ?d'] = map (\<lambda>c. ell_of (take (Suc k) ?ts) ?npr (chunk_lo wd c) (chunk_len wd c)) [0..<?nch]"
    proof (rule nth_equalityI)
      show "length (dat[c := ?d']) = length (map (\<lambda>c. ell_of (take (Suc k) ?ts) ?npr (chunk_lo wd c) (chunk_len wd c)) [0..<?nch])"
        using dc by simp
    next
      fix c' assume "c' < length (dat[c := ?d'])"
      then have c': "c' < ?nch" using dc by simp
      show "dat[c := ?d'] ! c' = map (\<lambda>c. ell_of (take (Suc k) ?ts) ?npr (chunk_lo wd c) (chunk_len wd c)) [0..<?nch] ! c'"
      proof (cases "c' = c")
        case True
        from ell_of_step_in [OF kt tk(1) qc cw [unfolded cur_def], of] tk(2) True c' dc
        show ?thesis by (simp add: slot_def cur_def lo_def len_def)
      next
        case False
        from wd_valid_disjoint [OF wd c(1) c' _ qc [unfolded lo_def len_def]] False
        have "\<not> (chunk_lo wd c' \<le> q \<and> q < chunk_lo wd c' + chunk_len wd c')" by auto
        from ell_of_step_out [OF kt tk(1) this] False c' dat
        show ?thesis by simp
      qed
    qed
    moreover have "offs_count (take (Suc k) ?ts) ?n ?offs"
      using offs_count_step [OF o kt tk(1) q(1)] by (simp add: cur_def)
    ultimately have "split_ell_fill_body findChunk coo wd j t = Some (?offs, dat[c := ?d'])
        \<and> P (j + 1) (?offs, dat[c := ?d'])"
      using j by (simp add: P_def nj)
    then show ?thesis by blast
  qed
  have "\<exists>t. for_loop 0 (nz coo) (split_ell_fill_body findChunk coo wd)
            (replicate ?n (Some 0),
             map (\<lambda>c. ell_of [] ?npr (chunk_lo wd c) (chunk_len wd c)) [0..<?nch]) = Some t
          \<and> P (nz coo) t"
  proof (rule for_loop_rule [where P = P])
    show "0 \<le> nz coo" by (rule m0)
    show "P 0 (replicate ?n (Some 0),
             map (\<lambda>c. ell_of [] ?npr (chunk_lo wd c) (chunk_len wd c)) [0..<?nch])"
      by (simp add: P_def offs_count_def row_of_def)
    show "\<And>j t. 0 \<le> j \<Longrightarrow> j < nz coo \<Longrightarrow> P j t \<Longrightarrow>
        \<exists>t'. split_ell_fill_body findChunk coo wd j t = Some t' \<and> P (j + 1) t'"
      by (rule step)
  qed
  then obtain offs' dat where run: "for_loop 0 (nz coo) (split_ell_fill_body findChunk coo wd)
            (replicate ?n (Some 0),
             map (\<lambda>c. ell_of [] ?npr (chunk_lo wd c) (chunk_len wd c)) [0..<?nch])
            = Some (offs', dat)"
    and fin: "P (nz coo) (offs', dat)" by auto
  from fin tr(1) run show ?thesis by (simp add: P_def)
qed

lemma SplitMatrixELL_correct:
  assumes wf: "wf_coo coo" and wd: "wd_valid wd (N coo)"
    and fc: "findChunk_correct findChunk wd (N coo)"
    and fit: "\<And>c. c < nat (numberOfChunks wd) \<Longrightarrow> chunkMaxNz coo wd c * lengths wd ! c < 2 ^ 31"
  shows "SplitMatrixELL findChunk coo wd
    = Some \<lparr>N = N coo, nz = nz coo,
            data = map (\<lambda>c. ell_of (triplets coo) (nzPerRow coo) (chunk_lo wd c) (chunk_len wd c))
                     [0..<nat (numberOfChunks wd)]\<rparr>"
proof -
  from wf have n0: "0 \<le> N coo" by (simp add: wf_coo_def)
  from wd have c0: "0 \<le> numberOfChunks wd" by (simp add: wd_valid_def)
  from split_ell_fill_loop [OF wf wd fc fit] obtain offs' where
    fill: "for_loop 0 (nz coo) (split_ell_fill_body findChunk coo wd)
            (replicate (nat (N coo)) (Some 0),
             map (\<lambda>c. ell_of [] (nzPerRow coo) (chunk_lo wd c) (chunk_len wd c))
               [0..<nat (numberOfChunks wd)])
          = Some (offs',
             map (\<lambda>c. ell_of (triplets coo) (nzPerRow coo) (chunk_lo wd c) (chunk_len wd c))
               [0..<nat (numberOfChunks wd)])"
    by blast
  show ?thesis
    unfolding SplitMatrixELL_def allocateData_def new_array_def memset0_def
    using n0 c0 split_ell_alloc_loop [OF wf wd fit] fill by simp
qed

lemma split_ell_alloc_negative:
  assumes wf: "wf_coo coo" and wd: "wd_valid wd (N coo)" and c: "c < nat (numberOfChunks wd)"
    and neg: "int32 (chunkMaxNz coo wd c * lengths wd ! c) < 0"
  shows "split_ell_alloc_chunk coo wd (int c) dat = None"
proof -
  let ?npr = "nzPerRow coo"
  define lo len where "lo = chunk_lo wd c" and "len = chunk_len wd c"
  note ch = wd_valid_chunk [OF wd c, folded lo_def len_def]
  from wd have lens: "length (offsets wd) = nat (numberOfChunks wd)"
    "length (lengths wd) = nat (numberOfChunks wd)"
    by (simp_all add: wd_valid_def)
  from wf_coo_nzPerRow [OF wf] have npr: "length ?npr = nat (N coo)" by simp
  define mx where "mx = max_nz ?npr lo (lo + len)"
  have mx: "getMaxNz coo (int lo) (int lo + int len) = Some mx"
    using getMaxNz_correct [of lo "lo + len" coo] ch(3) npr by (simp add: mx_def)
  have "lo + len \<le> length ?npr" using ch(3) npr by simp
  then have "int lo + int len \<le> int (length ?npr)" by linarith
  then have cp: "memcpy (replicate len None) ?npr (int lo) (int len) = Some (map Some (take len (drop lo ?npr)))"
    by (simp add: memcpy_def)
  from neg have ng: "int32 (mx * int len) < 0"
    by (simp add: mx_def lo_def len_def chunkMaxNz_max_nz ch(2) [unfolded len_def])
  show ?thesis
    unfolding split_ell_alloc_chunk_def
    using c lens ch(1,2) mx cp ng
    by (cases "lread dat (int c)")
      (simp_all add: allocateLength_def allocateIndexAndData_def new_array_def)
qed

lemma SplitMatrixELL_negative:
  assumes wf: "wf_coo coo" and wd: "wd_valid wd (N coo)" and c: "c < nat (numberOfChunks wd)"
    and neg: "int32 (chunkMaxNz coo wd c * lengths wd ! c) < 0"
  shows "SplitMatrixELL findChunk coo wd = None"
proof -
  from c have "0 \<le> int c" "int c < numberOfChunks wd" by simp_all
  then have "for_loop 0 (numberOfChunks wd) (split_ell_alloc_chunk coo wd) s = None" for s
    by (rule for_loop_fails [where c = "int c"]) (rule split_ell_alloc_negative [OF wf wd c neg])
  then show ?thesis
    by (simp add: SplitMatrixELL_def allocateData_def)
qed

text \<open>
  Claim C6, as the specification states it: for every triplet matrix and valid work
  distribution, each chunk's storage has (length of the chunk) times (pad width of the
  chunk) cells. It fails on \<open>long_row\<close> with the one chunk of all 65536 rows, whose pad
  width is 32768: the product of the two \<open>int\<close> values is \<open>-2^31\<close>, an array of that
  size cannot be allocated, and the constructor does not return.
\<close>

theorem split_ell_size_overflows:
  "wf_coo long_row \<and>
   wd_valid \<lparr>numberOfChunks = 1, offsets = [0], lengths = [65536]\<rparr> (N long_row) \<and>
   findChunk_correct (\<lambda>row. 0) \<lparr>numberOfChunks = 1, offsets = [0], lengths = [65536]\<rparr> (N long_row) \<and>
   chunkMaxNz long_row \<lparr>numberOfChunks = 1, offsets = [0], lengths = [65536]\<rparr> 0 = 32768 \<and>
   int32 (chunkMaxNz long_row \<lparr>numberOfChunks = 1, offsets = [0], lengths = [65536]\<rparr> 0 * 65536)
     = - 2147483648 \<and>
   SplitMatrixELL (\<lambda>row. 0) long_row \<lparr>numberOfChunks = 1, offsets = [0], lengths = [65536]\<rparr> = None"
proof -
  let ?wd = "\<lparr>numberOfChunks = 1, offsets = [0], lengths = [65536]\<rparr>"
  have wd: "wd_valid ?wd (N long_row)"
    by (simp add: wd_valid_def long_row_def list_all_iff)
  have fc: "findChunk_correct (\<lambda>row. 0) ?wd (N long_row)"
    by (simp add: findChunk_correct_def long_row_def list_all_iff)
  have mx: "chunkMaxNz long_row ?wd 0 = 32768"
    by (simp add: chunkMaxNz_def long_row_def)
  have neg: "int32 (chunkMaxNz long_row ?wd 0 * 65536) = - 2147483648"
    by (simp add: mx int32_def)
  then have "int32 (chunkMaxNz long_row ?wd 0 * lengths ?wd ! 0) < 0" by simp
  from SplitMatrixELL_negative [OF long_row_wf wd _ this, of "\<lambda>row. 0"]
  have "SplitMatrixELL (\<lambda>row. 0) long_row ?wd = None" by simp
  with long_row_wf wd fc mx neg show ?thesis by simp
qed

text \<open>
  Claim C6, amended. For every triplet matrix and every valid work distribution for
  which, in every chunk, (pad width of the chunk) times (length of the chunk) is less
  than \<open>2^31\<close>, the chunked ELL construction returns one sub-matrix per chunk; the pad
  width of a chunk is the largest per-row count among the chunk's own rows (0 for a
  chunk without rows), and the chunk's column-index and value arrays have (number of
  rows of the chunk) times (that pad width) cells.
\<close>

theorem split_ell_pad_width:
  assumes "wf_coo coo" and "wd_valid wd (N coo)" and "findChunk_correct findChunk wd (N coo)"
    and "\<forall>c<nat (numberOfChunks wd). chunkMaxNz coo wd c * lengths wd ! c < 2 ^ 31"
  shows "\<exists>s. SplitMatrixELL findChunk coo wd = Some s \<and>
    length (data s) = nat (numberOfChunks wd) \<and>
    (\<forall>c<nat (numberOfChunks wd).
       elements (data s ! c) = chunkMaxNz coo wd c * lengths wd ! c \<and>
       length (indexELL (data s ! c)) = nat (lengths wd ! c * chunkMaxNz coo wd c) \<and>
       length (dataELL (data s ! c)) = nat (lengths wd ! c * chunkMaxNz coo wd c))"
proof -
  from assms(4) have fit: "\<And>c. c < nat (numberOfChunks wd) \<Longrightarrow>
      chunkMaxNz coo wd c * lengths wd ! c < 2 ^ 31" by simp
  have el: "elements (ell_of (triplets coo) (nzPerRow coo) (chunk_lo wd c) (chunk_len wd c))
          = chunkMaxNz coo wd c * lengths wd ! c \<and>
        length (indexELL (ell_of (triplets coo) (nzPerRow coo) (chunk_lo wd c) (chunk_len wd c)))
          = nat (lengths wd ! c * chunkMaxNz coo wd c) \<and>
        length (dataELL (ell_of (triplets coo) (nzPerRow coo) (chunk_lo wd c) (chunk_len wd c)))
          = nat (lengths wd ! c * chunkMaxNz coo wd c)"
    if c: "c < nat (numberOfChunks wd)" for c
  proof -
    have "0 \<le> chunkMaxNz coo wd c" by (simp add: chunkMaxNz_def)
    with wd_valid_chunk(2) [OF assms(2) c] show ?thesis
      by (simp add: ell_of_def chunkMaxNz_max_nz nat_mult_distrib mult.commute)
  qed
  note run = SplitMatrixELL_correct [OF assms(1-3) fit]
  from run el show ?thesis by simp
qed

theorem split_ell_pad_width_witness:
  "wf_coo \<lparr>N = 3, nz = 5, I = [0, 1, 0, 2, 0], J = [0, 1, 1, 2, 2], V = [10, 20, 30, 40, 50 :: int],
           nzPerRow = [3, 1, 1]\<rparr> \<and>
   wd_valid \<lparr>numberOfChunks = 2, offsets = [0, 1], lengths = [1, 2]\<rparr> 3 \<and>
   findChunk_correct (\<lambda>row. if row < 1 then 0 else 1)
     \<lparr>numberOfChunks = 2, offsets = [0, 1], lengths = [1, 2]\<rparr> 3 \<and>
   SplitMatrixELL (\<lambda>row. if row < 1 then 0 else 1)
     \<lparr>N = 3, nz = 5, I = [0, 1, 0, 2, 0], J = [0, 1, 1, 2, 2], V = [10, 20, 30, 40, 50 :: int],
      nzPerRow = [3, 1, 1]\<rparr>
     \<lparr>numberOfChunks = 2, offsets = [0, 1], lengths = [1, 2]\<rparr>
   = Some \<lparr>N = 3, nz = 5,
       data = [\<lparr>elements = 3, lengthELL = [Some 3],
                indexELL = [Some 0, Some 1, Some 2], dataELL = [Some 10, Some 30, Some 50]\<rparr>,
               \<lparr>elements = 2, lengthELL = [Some 1, Some 1],
                indexELL = [Some 1, Some 2], dataELL = [Some 20, Some 40]\<rparr>]\<rparr> \<and>
   chunkMaxNz \<lparr>N = 3, nz = 5, I = [0, 1, 0, 2, 0], J = [0, 1, 1, 2, 2], V = [10, 20, 30, 40, 50 :: int],
      nzPerRow = [3, 1, 1]\<rparr> \<lparr>numberOfChunks = 2, offsets = [0, 1], lengths = [1, 2]\<rparr> 0 = 3 \<and>
   chunkMaxNz \<lparr>N = 3, nz = 5, I = [0, 1, 0, 2, 0], J = [0, 1, 1, 2, 2], V = [10, 20, 30, 40, 50 :: int],
      nzPerRow = [3, 1, 1]\<rparr> \<lparr>numberOfChunks = 2, offsets = [0, 1], lengths = [1, 2]\<rparr> 1 = 1"
proof -
  let ?coo = "\<lparr>N = 3, nz = 5, I = [0, 1, 0, 2, 0], J = [0, 1, 1, 2, 2], V = [10, 20, 30, 40, 50 :: int],
           nzPerRow = [3, 1, 1]\<rparr>"
  let ?wd = "\<lparr>numberOfChunks = 2, offsets = [0, 1], lengths = [1, 2]\<rparr>"
  let ?fc = "\<lambda>row :: int. if row < 1 then 0 else 1 :: int"
  have wf: "wf_coo ?coo"
    by (simp add: wf_coo_def row_count_def upt_rec)
  have wd: "wd_valid ?wd (N ?coo)"
    by (simp add: wd_valid_def upt_rec numeral_2_eq_2)
  have fc: "findChunk_correct ?fc ?wd (N ?coo)"
    by (simp add: findChunk_correct_def upt_rec)
  have run: "SplitMatrixELL ?fc ?coo ?wd = Some \<lparr>N = 3, nz = 5,
       data = [\<lparr>elements = 3, lengthELL = [Some 3],
                indexELL = [Some 0, Some 1, Some 2], dataELL = [Some 10, Some 30, Some 50]\<rparr>,
               \<lparr>elements = 2, lengthELL = [Some 1, Some 1],
                indexELL = [Some 1, Some 2], dataELL = [Some 20, Some 40]\<rparr>]\<rparr>"
    by code_simp
  have fit: "\<forall>c<nat (numberOfChunks ?wd). chunkMaxNz ?coo ?wd c * lengths ?wd ! c < 2 ^ 31"
    by (simp add: less_Suc_eq numeral_2_eq_2 chunkMaxNz_def)
  from split_ell_pad_width [OF wf wd fc fit] obtain s where s: "SplitMatrixELL ?fc ?coo ?wd = Some s"
    and el: "\<forall>c<nat (numberOfChunks ?wd). elements (data s ! c) = chunkMaxNz ?coo ?wd c * lengths ?wd ! c \<and>
       length (indexELL (data s ! c)) = nat (lengths ?wd ! c * chunkMaxNz ?coo ?wd c) \<and>
       length (dataELL (data s ! c)) = nat (lengths ?wd ! c * chunkMaxNz ?coo ?wd c)"
    by blast
  from s run el [rule_format, of 0] el [rule_format, of 1]
  have "chunkMaxNz ?coo ?wd 0 = 3" "chunkMaxNz ?coo ?wd 1 = 1" by auto
  with wf wd fc run show ?thesis by simp
qed

subsection \<open>The chunked CRS construction\<close>












subsection \<open>The conversion of a range of rows\<close>

lemma triplets_restrict:
  "triplets (coo_restrict coo offset len)
     = map (\<lambda>t. (fst t - offset, snd t))
         (filter (\<lambda>t. offset \<le> fst t \<and> fst t < offset + len) (triplets coo))"
  by (simp add: coo_restrict_def triplets_def Let_def zip_map_map zip_same_conv_map
      list_eq_iff_nth_eq)

lemma row_of_restrict:
  assumes "j < len"
  shows "row_of (triplets (coo_restrict coo (int lo) (int len))) (int j)
           = row_of (triplets coo) (int (lo + j))"
proof -
  have "filter (\<lambda>x. int lo \<le> fst x \<and> fst x < int lo + int len \<and> fst x - int lo = int j) (triplets coo)
      = filter (\<lambda>t. fst t = int (lo + j)) (triplets coo)"
    using assms by (intro filter_cong) auto
  then show ?thesis
    by (simp add: triplets_restrict row_of_def filter_map comp_def del: of_nat_add)
qed

lemma row_count_fst: "row_count (map fst ts) r = int (length (row_of ts r))"
  by (simp add: row_count_def row_of_def filter_map comp_def)

lemma wf_coo_restrict:
  assumes wf: "wf_coo coo" and r: "lo + len \<le> nat (N coo)"
  shows "wf_coo (coo_restrict coo (int lo) (int len))"
proof -
  let ?r = "coo_restrict coo (int lo) (int len)"
  note npr = wf_coo_nzPerRow [OF wf]
  have I: "I ?r = map fst (triplets ?r)"
    by (simp add: triplets_restrict) (simp add: coo_restrict_def Let_def)
  have "nzPerRow ?r = map (\<lambda>j. row_count (I ?r) (int j)) [0..<len]"
  proof (rule nth_equalityI)
    show "length (nzPerRow ?r) = length (map (\<lambda>j. row_count (I ?r) (int j)) [0..<len])"
      using r npr(1) by (simp add: coo_restrict_def Let_def)
  next
    fix j assume "j < length (nzPerRow ?r)"
    with r npr(1) have j: "j < len" by (simp add: coo_restrict_def Let_def)
    with r have "nzPerRow ?r ! j = nzPerRow coo ! (lo + j)"
      using npr(1) by (simp add: coo_restrict_def Let_def)
    also have "\<dots> = int (length (row_of (triplets coo) (int (lo + j))))"
      using npr(2) [of "lo + j"] j r by simp
    also have "\<dots> = row_count (I ?r) (int j)"
      unfolding I row_count_fst row_of_restrict [OF j] ..
    finally show "nzPerRow ?r ! j = map (\<lambda>j. row_count (I ?r) (int j)) [0..<len] ! j"
      using j by simp
  qed
  then show ?thesis
    by (simp add: wf_coo_def) (auto simp: coo_restrict_def Let_def list_all_iff)
qed



lemma ell_of_restrict:
  "ell_of (triplets (coo_restrict coo (int lo) (int len))) (nzPerRow (coo_restrict coo (int lo) (int len))) 0 len
     = ell_of (triplets coo) (nzPerRow coo) lo len"
proof -
  let ?r = "coo_restrict coo (int lo) (int len)"
  have npr: "take len (nzPerRow ?r) = take len (drop lo (nzPerRow coo))"
    by (simp add: coo_restrict_def Let_def)
  then have mx: "max_nz (nzPerRow ?r) 0 len = max_nz (nzPerRow coo) lo (lo + len)"
    by (simp add: max_nz_def)
  have arr: "ell_array g (triplets ?r) 0 len w = ell_array g (triplets coo) lo len w"
    for g :: "int \<times> 'a \<Rightarrow> 'b" and w
    unfolding ell_array_def
  proof (rule map_cong [OF refl])
    fix p assume "p \<in> set [0..<w * len]"
    then have "0 < len" by (cases len) auto
    then have "p mod len < len" by simp
    from row_of_restrict [OF this, of coo lo]
    show "map_option g (ell_cell (triplets ?r) (p div len) (int (0 + p mod len)))
        = map_option g (ell_cell (triplets coo) (p div len) (int (lo + p mod len)))"
      by (simp add: ell_cell_def del: of_nat_add)
  qed
  show ?thesis
    by (simp add: ell_of_def mx npr arr)
qed


lemma max_nz_restrict:
  "max_nz (nzPerRow (coo_restrict coo (int lo) (int len))) 0 len = max_nz (nzPerRow coo) lo (lo + len)"
  by (simp add: max_nz_def coo_restrict_def Let_def)

lemma DataMatrixELL_restrict:
  assumes wf: "wf_coo coo" and r: "lo + len \<le> nat (N coo)"
    and fit: "max_nz (nzPerRow coo) lo (lo + len) * int len < 2 ^ 31"
  shows "map_option matrixData (DataMatrixELL (coo_restrict coo (int lo) (int len)))
           = Some (ell_of (triplets coo) (nzPerRow coo) lo len)"
proof -
  let ?r = "coo_restrict coo (int lo) (int len)"
  have n: "N ?r = int len" by (simp add: coo_restrict_def Let_def)
  from fit have "N ?r * max_nz (nzPerRow ?r) 0 (nat (N ?r)) < 2 ^ 31"
    by (simp add: n max_nz_restrict mult.commute)
  from DataMatrixELL_correct [OF wf_coo_restrict [OF wf r] this] ell_of_restrict [of coo lo len] n
  show ?thesis by simp
qed

subsection \<open>The fill loops as folds over the triplets\<close>







subsection \<open>The chunked ELL fill loop, chunk by chunk\<close>







subsection \<open>The chunked ELL construction and the conversion of the chunks\<close>







text \<open>
  Against the unchunked ELL conversion of the whole matrix, when its size
  \<open>N * maxRowNz\<close> is less than \<open>2^31\<close> as well: the chunk's row lengths are the whole
  matrix's lengths of the same rows, and every row of the chunk holds the same
  column-index and value cells as in the whole matrix.
\<close>

lemma split_ell_rows_of_whole:
  assumes "wf_coo coo" and "wd_valid wd (N coo)" and "findChunk_correct findChunk wd (N coo)"
    and "N coo * maxRowNz coo < 2 ^ 31"
  shows "\<exists>ell fell.
    SplitMatrixELL findChunk coo wd = Some ell \<and> DataMatrixELL coo = Some fell \<and>
    (\<forall>c<nat (numberOfChunks wd).
       lengthELL (data ell ! c)
         = take (nat (lengths wd ! c)) (drop (nat (offsets wd ! c)) (lengthELL (matrixData fell))) \<and>
       (\<forall>j. 0 \<le> j \<and> j < lengths wd ! c \<longrightarrow>
          ell_row (lengths wd ! c) (data ell ! c) j
            = ell_row (N coo) (matrixData fell) (offsets wd ! c + j)))"
proof -
  let ?ts = "triplets coo" and ?npr = "nzPerRow coo" and ?n = "nat (N coo)"
  let ?nch = "nat (numberOfChunks wd)"
  note wf = assms(1) and wd = assms(2)
  from wf have n0: "0 \<le> N coo" by (simp add: wf_coo_def)
  note npr = wf_coo_nzPerRow [OF wf]
  have m0: "0 \<le> maxRowNz coo" by (simp add: maxRowNz_def)
  from assms(4) have fit_all: "N coo * max_nz ?npr 0 ?n < 2 ^ 31"
    by (simp add: max_nz_all [OF wf])
  have fit: "chunkMaxNz coo wd c * lengths wd ! c < 2 ^ 31" if c: "c < ?nch" for c
  proof -
    note ch = wd_valid_chunk [OF wd c]
    have "chunkMaxNz coo wd c \<le> maxRowNz coo"
      unfolding chunkMaxNz_def maxRowNz_def
      by (intro Max_mono) (auto dest: in_set_takeD in_set_dropD)
    moreover have "0 \<le> chunkMaxNz coo wd c" by (simp add: chunkMaxNz_def)
    moreover from ch(2,3) n0 have "lengths wd ! c \<le> N coo" "0 \<le> lengths wd ! c" by simp_all
    ultimately have "chunkMaxNz coo wd c * lengths wd ! c \<le> maxRowNz coo * N coo"
      by (intro mult_mono) (use m0 in simp_all)
    with assms(4) show ?thesis by (simp add: mult.commute)
  qed
  have chunk: "lengthELL (ell_of ?ts ?npr (chunk_lo wd c) (chunk_len wd c))
         = take (nat (lengths wd ! c)) (drop (nat (offsets wd ! c)) (lengthELL (ell_of ?ts ?npr 0 ?n))) \<and>
       (\<forall>j. 0 \<le> j \<and> j < lengths wd ! c \<longrightarrow>
          ell_row (lengths wd ! c) (ell_of ?ts ?npr (chunk_lo wd c) (chunk_len wd c)) j
            = ell_row (N coo) (ell_of ?ts ?npr 0 ?n) (offsets wd ! c + j))"
    if c: "c < ?nch" for c
  proof -
    define lo len where "lo = chunk_lo wd c" and "len = chunk_len wd c"
    note ch = wd_valid_chunk [OF wd c, folded lo_def len_def]
    have lens: "lengthELL (ell_of ?ts ?npr lo len) = take len (drop lo (lengthELL (ell_of ?ts ?npr 0 ?n)))"
      using npr(1) by (simp add: ell_of_def take_map drop_map)
    have rows: "ell_row (int len) (ell_of ?ts ?npr lo len) j = ell_row (N coo) (ell_of ?ts ?npr 0 ?n) (int lo + j)"
      if j: "0 \<le> j" "j < int len" for j
    proof -
      define q where "q = nat j"
      with j have jq: "j = int q" and q: "q < len" by auto
      from q ch(3) have q': "lo + q < ?n" by simp
      from ell_of_row [OF q, of lo ?npr ?ts] ell_of_row [OF q', of 0 ?npr ?ts] npr ch(3) q q' n0
      show ?thesis by (simp add: jq)
    qed
    from lens rows show ?thesis
      unfolding ch(1,2) nat_int lo_def [symmetric] len_def [symmetric] by simp
  qed
  note runs = SplitMatrixELL_correct [OF assms(1-3) fit] DataMatrixELL_correct [OF wf fit_all]
  from runs chunk show ?thesis by simp
qed

end
